theory Spec2Isabelle
  imports Complex_Main "HOL-Library.Multiset"
begin

section \<open>Numbers\<close>

text \<open>
  The program computes with JavaScript numbers (IEEE 754 binary64). A finite number
  is modelled as the real it denotes. An arithmetic operation of the program is the
  exact operation on reals followed by a rounding operator \<open>rd\<close>, a parameter of the
  functions below: \<open>rd = id\<close> is exact arithmetic and \<open>rd = binary64\<close> is the
  arithmetic of the language (round to nearest, ties to even). Comparisons,
  \<^verbatim>\<open>Math.min\<close> and \<^verbatim>\<open>Math.max\<close> are exact.

  A quotient is the one place where the program tests for a non-finite value
  (\<^verbatim>\<open>Number.isFinite\<close>), so a quotient is an optional real: \<open>None\<close> is the
  non-finite result of a zero denominator or of a rounded quotient beyond the
  largest finite number. Sums, differences and products beyond the largest finite
  number are not modelled: the properties that depend on their values are stated
  for bounded coordinates.
\<close>

definition roundTiesToEven :: "real \<Rightarrow> int" where
  "roundTiesToEven a =
     (let f = \<lfloor>a\<rfloor>; d = a - of_int f
      in if d < 1 / 2 then f else if 1 / 2 < d then f + 1 else if even f then f else f + 1)"

text \<open>The binary64 value nearest to a real: 53 significant bits, the least exponent
  \<open>-1022\<close> (below it the spacing stays \<open>2 powi (-1074)\<close>).\<close>

definition binary64 :: "real \<Rightarrow> real" where
  "binary64 a =
     (if a = 0 then 0
      else let e = max \<lfloor>log 2 \<bar>a\<bar>\<rfloor> (- 1022)
           in of_int (roundTiesToEven (a / 2 powi (e - 52))) * 2 powi (e - 52))"

definition js_quotient :: "(real \<Rightarrow> real) \<Rightarrow> real \<Rightarrow> real \<Rightarrow> real option" where
  "js_quotient rd a b =
     (if b = 0 then None
      else if \<bar>rd (a / b)\<bar> < 2 ^ 1024 then Some (rd (a / b)) else None)"

text \<open>The ray test below is used at inputs where every operation is exact; it is
  written with exact arithmetic, a zero denominator giving the non-finite
  quotient.\<close>

definition js_div :: "real \<Rightarrow> real \<Rightarrow> real option" where
  "js_div a b = (if b = 0 then None else Some (a / b))"

section \<open>vec2\<close>

datatype vec2 = Vec2 (x_of: real) (y_of: real)

definition vec2_sub :: "vec2 \<Rightarrow> vec2 \<Rightarrow> vec2" where
  "vec2_sub a b = Vec2 (x_of a - x_of b) (y_of a - y_of b)"

definition vec2_add :: "vec2 \<Rightarrow> vec2 \<Rightarrow> vec2" where
  "vec2_add a b = Vec2 (x_of a + x_of b) (y_of a + y_of b)"

definition vec2_scale :: "vec2 \<Rightarrow> real \<Rightarrow> vec2" where
  "vec2_scale a k = Vec2 (x_of a * k) (y_of a * k)"

definition vec2_cross :: "vec2 \<Rightarrow> vec2 \<Rightarrow> real" where
  "vec2_cross a b = x_of a * y_of b - y_of a * x_of b"

text \<open>The result of a \<^verbatim>\<open>vec2\<close> method under rounding: each component of \<^verbatim>\<open>sub\<close>,
  \<^verbatim>\<open>add\<close> and \<^verbatim>\<open>scale\<close> is one rounded operation, and \<^verbatim>\<open>cross\<close> is two rounded
  products and their rounded difference.\<close>

definition round_vec2 :: "(real \<Rightarrow> real) \<Rightarrow> vec2 \<Rightarrow> vec2" where
  "round_vec2 rd a = Vec2 (rd (x_of a)) (rd (y_of a))"

definition round_cross :: "(real \<Rightarrow> real) \<Rightarrow> vec2 \<Rightarrow> vec2 \<Rightarrow> real" where
  "round_cross rd a b = rd (rd (x_of a * y_of b) - rd (y_of a * x_of b))"

section \<open>Geometry predicates (util)\<close>

definition rayLineSegmentIntersect :: "vec2 \<Rightarrow> vec2 \<Rightarrow> vec2 \<Rightarrow> vec2 \<Rightarrow> vec2 option" where
  "rayLineSegmentIntersect rayOrigin rayDirection v0 v1 =
     (let segment = vec2_sub v1 v0;
          denominator = vec2_cross rayDirection segment;
          originToSegment = vec2_sub v0 rayOrigin
      in case js_div (vec2_cross originToSegment segment) denominator of
           None \<Rightarrow> None
         | Some tRay \<Rightarrow>
            (case js_div (vec2_cross originToSegment rayDirection) denominator of
               None \<Rightarrow> None
             | Some tSegment \<Rightarrow>
                 if tRay < 0 \<or> tSegment < 0 \<or> tSegment > 1 then None
                 else Some (Vec2 (x_of rayOrigin + x_of rayDirection * tRay)
                                 (y_of rayOrigin + y_of rayDirection * tRay))))"

definition lineSegmentIntersect :: "(real \<Rightarrow> real) \<Rightarrow> vec2 \<Rightarrow> vec2 \<Rightarrow> vec2 \<Rightarrow> vec2 \<Rightarrow> bool" where
  "lineSegmentIntersect rd a0 a1 b0 b1 =
     (let r = round_vec2 rd (vec2_sub a1 a0);
          s = round_vec2 rd (vec2_sub b1 b0);
          denominator = round_cross rd r s;
          q = round_vec2 rd (vec2_sub b0 a0)
      in case js_quotient rd (round_cross rd q s) denominator of
           None \<Rightarrow> False
         | Some ta \<Rightarrow>
            (case js_quotient rd (round_cross rd q r) denominator of
               None \<Rightarrow> False
             | Some tb \<Rightarrow> \<not> (ta < 0 \<or> ta > 1 \<or> tb < 0 \<or> tb > 1)))"

section \<open>Math\<close>

text \<open>\<^verbatim>\<open>Math.atan2(y, x)\<close>: the angle of the direction \<open>(x, y)\<close> in \<open>(-\<pi>, \<pi>]\<close>,
  and \<open>0\<close> at the origin. This is the exact angle; the callers round it (the library
  functions \<^verbatim>\<open>Math.atan2\<close> and \<^verbatim>\<open>Math.hypot\<close> are taken as correctly rounded).\<close>

definition Math_atan2 :: "real \<Rightarrow> real \<Rightarrow> real" where
  "Math_atan2 b a =
     (if 0 < a then arctan (b / a)
      else if a < 0 \<and> 0 \<le> b then arctan (b / a) + pi
      else if a < 0 then arctan (b / a) - pi
      else if 0 < b then pi / 2
      else if b < 0 then - pi / 2
      else 0)"

section \<open>Graph entities\<close>

text \<open>
  Objects are identified by the index at which they were allocated: a vertex is a
  natural number, an edge carries its allocation index \<open>eid\<close> next to its two
  endpoints, and the two half-edges of an edge are told apart by the endpoint
  they start from. The mutable fields of vertices and half-edges
  (\<^verbatim>\<open>pos\<close>, \<^verbatim>\<open>edges\<close>, \<^verbatim>\<open>next\<close>, \<^verbatim>\<open>face\<close>) live in the graph state.
  A face is identified by its index in the list of faces; the display colour of a
  face is not modelled.
\<close>

datatype GraphEdge = GraphEdge (eid: nat) (vertex0: nat) (vertex1: nat)

datatype GraphHalfEdge = GraphHalfEdge (edge: GraphEdge) (fromVertex1: bool)

definition halfEdgeFromVertex0 :: "GraphEdge \<Rightarrow> GraphHalfEdge" where
  "halfEdgeFromVertex0 e = GraphHalfEdge e False"

definition halfEdgeFromVertex1 :: "GraphEdge \<Rightarrow> GraphHalfEdge" where
  "halfEdgeFromVertex1 e = GraphHalfEdge e True"

definition origin :: "GraphHalfEdge \<Rightarrow> nat" where
  "origin h = (if fromVertex1 h then vertex1 (edge h) else vertex0 (edge h))"

definition twin :: "GraphHalfEdge \<Rightarrow> GraphHalfEdge" where
  "twin h = (if fromVertex1 h then halfEdgeFromVertex0 (edge h) else halfEdgeFromVertex1 (edge h))"

definition sharesVertexWithEdge :: "GraphEdge \<Rightarrow> GraphEdge \<Rightarrow> bool" where
  "sharesVertexWithEdge this e =
     (vertex0 this = vertex0 e \<or> vertex0 this = vertex1 e \<or>
      vertex1 this = vertex0 e \<or> vertex1 this = vertex1 e)"

record Graph =
  vertices :: "nat list"
  pos :: "nat \<Rightarrow> vec2"
  vedges :: "nat \<Rightarrow> GraphEdge list"
  edges :: "GraphEdge list"
  faces :: "GraphHalfEdge list list"
  halfEdges :: "GraphHalfEdge list"
  nextOf :: "(GraphHalfEdge \<times> GraphHalfEdge) list"
  faceOf :: "(GraphHalfEdge \<times> nat) list"

text \<open>\<open>pos g v\<close> and \<open>vedges g v\<close> are the fields \<^verbatim>\<open>pos\<close> and \<^verbatim>\<open>edges\<close> of vertex
  \<open>v\<close>; \<open>nextOf\<close> and \<open>faceOf\<close> are the stores of the half-edge fields \<^verbatim>\<open>next\<close> and
  \<^verbatim>\<open>face\<close> (absent key: \<^verbatim>\<open>null\<close>; the first binding of a key is the current one).\<close>

definition Graph_init :: Graph where
  "Graph_init = \<lparr>vertices = [], pos = (\<lambda>_. Vec2 0 0), vedges = (\<lambda>_. []), edges = [],
     faces = [], halfEdges = [], nextOf = [], faceOf = []\<rparr>"

definition Graph_width :: real where "Graph_width = 2"
definition Graph_height :: real where "Graph_height = 2"
definition Graph_padding :: real where "Graph_padding = 1 / 10"

definition vertex_removeEdge :: "nat \<Rightarrow> GraphEdge \<Rightarrow> Graph \<Rightarrow> Graph" where
  "vertex_removeEdge v e g = g\<lparr>vedges := (vedges g)(v := remove1 e (vedges g v))\<rparr>"

definition edgeAngle :: "(real \<Rightarrow> real) \<Rightarrow> Graph \<Rightarrow> nat \<Rightarrow> GraphEdge \<Rightarrow> real" where
  "edgeAngle rd g v e =
     (let u = (if vertex0 e = v then vertex1 e else vertex0 e);
          direction = round_vec2 rd (vec2_sub (pos g u) (pos g v))
      in rd (Math_atan2 (y_of direction) (x_of direction)))"

definition sortEdgesCCW :: "(real \<Rightarrow> real) \<Rightarrow> nat \<Rightarrow> Graph \<Rightarrow> Graph" where
  "sortEdgesCCW rd v g = g\<lparr>vedges := (vedges g)(v := sort_key (edgeAngle rd g v) (vedges g v))\<rparr>"

definition registerEdge :: "GraphEdge \<Rightarrow> Graph \<Rightarrow> Graph" where
  "registerEdge e g =
     (let g1 = g\<lparr>edges := edges g @ [e],
                  halfEdges := halfEdges g @ [halfEdgeFromVertex0 e, halfEdgeFromVertex1 e]\<rparr>;
          g2 = g1\<lparr>vedges := (vedges g1)(vertex0 e := vedges g1 (vertex0 e) @ [e])\<rparr>
      in g2\<lparr>vedges := (vedges g2)(vertex1 e := vedges g2 (vertex1 e) @ [e])\<rparr>)"

definition removeHalfEdge :: "GraphHalfEdge \<Rightarrow> Graph \<Rightarrow> Graph" where
  "removeHalfEdge h g = g\<lparr>halfEdges := remove1 h (halfEdges g)\<rparr>"

definition removeEdge :: "GraphEdge \<Rightarrow> Graph \<Rightarrow> Graph" where
  "removeEdge e g =
     vertex_removeEdge (vertex1 e) e
       (vertex_removeEdge (vertex0 e) e
         (removeHalfEdge (halfEdgeFromVertex1 e)
           (removeHalfEdge (halfEdgeFromVertex0 e)
             (g\<lparr>edges := remove1 e (edges g)\<rparr>))))"


section \<open>Deserialization, normalization, serialization\<close>

datatype GraphSerialized =
  GraphSerialized (ser_vertices: "(real \<times> real) list") (ser_edges: "(int \<times> int) list")

text \<open>\<^verbatim>\<open>array[i]\<close> for a number \<open>i\<close>: \<^verbatim>\<open>undefined\<close> outside the index range.
  Indices are modelled as integers.\<close>

definition array_get :: "'a list \<Rightarrow> int \<Rightarrow> 'a option" where
  "array_get xs i = (if 0 \<le> i \<and> i < int (length xs) then Some (xs ! nat i) else None)"

text \<open>
  The arithmetic of the normalisation is written with a rounding operator \<open>rd\<close>
  applied to the result of every arithmetic operation and to the literal
  \<^verbatim>\<open>0.1\<close>: \<open>rd = id\<close> is exact arithmetic, \<open>rd = binary64\<close> is the
  double-precision arithmetic of the language. Comparisons, \<^verbatim>\<open>Math.min\<close> and
  \<^verbatim>\<open>Math.max\<close> are exact in both. A width or height beyond the largest finite
  number is \<^verbatim>\<open>Infinity\<close> in the program: the quotient by it, the scale, is \<open>0\<close>.
\<close>

text \<open>Running minimum and maximum, started at \<^verbatim>\<open>Infinity\<close> and \<^verbatim>\<open>-Infinity\<close>
  (\<open>None\<close>).\<close>

fun Math_min_acc :: "real option \<Rightarrow> real \<Rightarrow> real option" where
  "Math_min_acc None a = Some a"
| "Math_min_acc (Some m) a = Some (min m a)"

fun Math_max_acc :: "real option \<Rightarrow> real \<Rightarrow> real option" where
  "Math_max_acc None a = Some a"
| "Math_max_acc (Some m) a = Some (max m a)"

text \<open>\<^verbatim>\<open>Math.min\<close> of two scale factors, each a positive real or \<^verbatim>\<open>Infinity\<close>
  (\<open>None\<close>).\<close>

fun Math_min_inf :: "real option \<Rightarrow> real option \<Rightarrow> real option" where
  "Math_min_inf None b = b"
| "Math_min_inf (Some a) None = Some a"
| "Math_min_inf (Some a) (Some b) = Some (min a b)"

definition collapseToOrigin :: "Graph \<Rightarrow> Graph" where
  "collapseToOrigin g =
     g\<lparr>pos := (\<lambda>v. if v \<in> set (vertices g) then Vec2 0 0 else pos g v)\<rparr>"

definition normalizeVerticesToGraphSpace :: "(real \<Rightarrow> real) \<Rightarrow> Graph \<Rightarrow> Graph" where
  "normalizeVerticesToGraphSpace rd g =
     (if vertices g = [] then g
      else
        case (fold (\<lambda>v m. Math_min_acc m (x_of (pos g v))) (vertices g) None,
              fold (\<lambda>v m. Math_max_acc m (x_of (pos g v))) (vertices g) None,
              fold (\<lambda>v m. Math_min_acc m (y_of (pos g v))) (vertices g) None,
              fold (\<lambda>v m. Math_max_acc m (y_of (pos g v))) (vertices g) None) of
          (Some min_x, Some max_x, Some min_y, Some max_y) \<Rightarrow>
            (let width = rd (max_x - min_x);
                 height = rd (max_y - min_y)
             in if width = 0 \<and> height = 0 then collapseToOrigin g
                else
                  let center = round_vec2 rd (vec2_scale
                                 (round_vec2 rd (vec2_add (Vec2 min_x min_y) (Vec2 max_x max_y))) (1 / 2));
                      availableWidth = max (rd (Graph_width - rd (2 * rd Graph_padding))) 0;
                      availableHeight = max (rd (Graph_height - rd (2 * rd Graph_padding))) 0;
                      scale_x = (if 0 < width
                                 then if 2 ^ 1024 \<le> width then Some 0
                                      else js_quotient rd availableWidth width
                                 else None);
                      scale_y = (if 0 < height
                                 then if 2 ^ 1024 \<le> height then Some 0
                                      else js_quotient rd availableHeight height
                                 else None)
                  in case Math_min_inf scale_x scale_y of
                       None \<Rightarrow> collapseToOrigin g
                     | Some uniformScale \<Rightarrow>
                         if uniformScale \<le> 0 then collapseToOrigin g
                         else g\<lparr>pos := (\<lambda>v. if v \<in> set (vertices g)
                                   then round_vec2 rd (vec2_scale
                                          (round_vec2 rd (vec2_sub (pos g v) center)) uniformScale)
                                   else pos g v)\<rparr>)
        | _ \<Rightarrow> g)"

text \<open>One step of the loop over \<^verbatim>\<open>data.edges\<close>; \<open>k\<close> is the position of the entry,
  which identifies the edge object created for it.\<close>

definition loadEdge :: "nat \<times> int \<times> int \<Rightarrow> Graph \<Rightarrow> Graph" where
  "loadEdge = (\<lambda>(k, index0, index1) g.
     case array_get (vertices g) index0 of
       None \<Rightarrow> g
     | Some v0 \<Rightarrow>
        (case array_get (vertices g) index1 of
           None \<Rightarrow> g
         | Some v1 \<Rightarrow> registerEdge (GraphEdge k v0 v1) g))"

text \<open>The constructor calls \<^verbatim>\<open>loadFromSerialized\<close> on the freshly initialised graph;
  the vertex created for entry \<open>i\<close> of \<^verbatim>\<open>data.vertices\<close> is vertex \<open>n + i\<close>, where
  \<open>n\<close> vertices exist already.\<close>

definition loadFromSerialized :: "(real \<Rightarrow> real) \<Rightarrow> GraphSerialized \<Rightarrow> Graph \<Rightarrow> Graph" where
  "loadFromSerialized rd data g =
     (let n = length (vertices g);
          m = length (ser_vertices data);
          g1 = g\<lparr>vertices := vertices g @ [n ..< n + m],
                  pos := (\<lambda>v. if n \<le> v \<and> v < n + m
                               then (case ser_vertices data ! (v - n) of (a, b) \<Rightarrow> Vec2 a b)
                               else pos g v),
                  vedges := (\<lambda>v. if n \<le> v \<and> v < n + m then [] else vedges g v)\<rparr>;
          g2 = normalizeVerticesToGraphSpace rd g1;
          g3 = fold loadEdge (List.enumerate 0 (ser_edges data)) g2
      in fold (sortEdgesCCW rd) (vertices g3) g3)"

text \<open>The \<^verbatim>\<open>Map\<close> from vertex to index built by \<^verbatim>\<open>forEach\<close>: a later entry
  replaces an earlier one.\<close>

definition vertexIndices :: "nat list \<Rightarrow> nat \<rightharpoonup> nat" where
  "vertexIndices vs = fold (\<lambda>(i, v) m. m(v \<mapsto> i)) (List.enumerate 0 vs) Map.empty"

definition serialize :: "Graph \<Rightarrow> GraphSerialized" where
  "serialize g =
     GraphSerialized
       (map (\<lambda>v. (x_of (pos g v), y_of (pos g v))) (vertices g))
       (concat (map (\<lambda>e.
          case vertexIndices (vertices g) (vertex0 e) of
            None \<Rightarrow> []
          | Some index0 \<Rightarrow>
             (case vertexIndices (vertices g) (vertex1 e) of
                None \<Rightarrow> []
              | Some index1 \<Rightarrow> [(int index0, int index1)])) (edges g)))"


section \<open>Half-edge linking and face extraction\<close>

definition outgoing :: "Graph \<Rightarrow> nat \<Rightarrow> GraphHalfEdge list" where
  "outgoing g v =
     map (\<lambda>e. if vertex0 e = v then halfEdgeFromVertex0 e else halfEdgeFromVertex1 e) (vedges g v)"

text \<open>The index of \<^verbatim>\<open>prev\<close>, \<^verbatim>\<open>(i - 1 + degree) % degree\<close>, is written with the
  addition first: subtraction of natural numbers stops at zero.\<close>

definition linkStep :: "GraphHalfEdge list \<Rightarrow> nat \<Rightarrow> Graph \<Rightarrow> Graph" where
  "linkStep out i g =
     g\<lparr>nextOf := (twin (out ! i), out ! ((i + length out - 1) mod length out)) # nextOf g\<rparr>"

definition linkVertex :: "nat \<Rightarrow> Graph \<Rightarrow> Graph" where
  "linkVertex v g =
     (let out = outgoing g v;
          degree = length out
      in if degree < 2 then g else fold (linkStep out) [0 ..< degree] g)"

definition linkHalfEdgesAroundVertices :: "Graph \<Rightarrow> Graph" where
  "linkHalfEdgesAroundVertices g = fold linkVertex (vertices g) g"

fun faceAreaLoop :: "(real \<Rightarrow> real) \<Rightarrow> Graph \<Rightarrow> GraphHalfEdge list \<Rightarrow> real \<Rightarrow> real option" where
  "faceAreaLoop rd g [] area = Some area"
| "faceAreaLoop rd g (h # hs) area =
     (case map_of (nextOf g) h of
        None \<Rightarrow> None
      | Some n \<Rightarrow>
          faceAreaLoop rd g hs (rd (area + round_cross rd (pos g (origin h)) (pos g (origin n)))))"

definition computeFaceArea :: "(real \<Rightarrow> real) \<Rightarrow> Graph \<Rightarrow> GraphHalfEdge list \<Rightarrow> real" where
  "computeFaceArea rd g hs =
     (case faceAreaLoop rd g hs 0 of None \<Rightarrow> 0 | Some area \<Rightarrow> rd (area / 2))"

text \<open>The inner \<^verbatim>\<open>while(current)\<close> loop of \<^verbatim>\<open>buildFaces\<close>: \<open>acc\<close> is
  \<^verbatim>\<open>halfEdgesInFace\<close> (whose elements are those of \<^verbatim>\<open>traversalSet\<close>), the result is
  \<^verbatim>\<open>halfEdgesInFace\<close> and \<^verbatim>\<open>isClosed\<close>.\<close>

function walk :: "Graph \<Rightarrow> GraphHalfEdge \<Rightarrow> GraphHalfEdge list \<Rightarrow> GraphHalfEdge
    \<Rightarrow> GraphHalfEdge list \<times> bool" where
  "walk g start acc current =
     (if current \<in> set acc then (acc, current = start)
      else if map_of (faceOf g) current \<noteq> None then (acc, False)
      else case map_of (nextOf g) current of
             None \<Rightarrow> (acc @ [current], False)
           | Some n \<Rightarrow> if n = start then (acc @ [current], True)
                       else walk g start (acc @ [current]) n)"
  by pat_completeness auto
termination
proof (relation "measure (\<lambda>(g, start, acc, current). card (fst ` set (nextOf g) - set acc))")
  show "wf (measure (\<lambda>(g, start, acc, current). card (fst ` set (nextOf g) - set acc)))"
    by simp
next
  fix g :: Graph and start current n :: GraphHalfEdge and acc :: "GraphHalfEdge list"
  assume a: "current \<notin> set acc" and n: "map_of (nextOf g) current = Some n"
  from n have "current \<in> fst ` set (nextOf g)"
    by (metis domI dom_map_of_conv_image_fst)
  with a have "fst ` set (nextOf g) - set (acc @ [current]) \<subset> fst ` set (nextOf g) - set acc"
    by auto
  then have "card (fst ` set (nextOf g) - set (acc @ [current])) < card (fst ` set (nextOf g) - set acc)"
    by (intro psubset_card_mono) auto
  then show "((g, start, acc @ [current], n), (g, start, acc, current))
      \<in> measure (\<lambda>(g, start, acc, current). card (fst ` set (nextOf g) - set acc))"
    by simp
qed

definition buildFace :: "(real \<Rightarrow> real) \<Rightarrow> GraphHalfEdge \<Rightarrow> Graph \<Rightarrow> Graph" where
  "buildFace rd h g =
     (if map_of (faceOf g) h \<noteq> None then g
      else case walk g h [] h of
        (halfEdgesInFace, isClosed) \<Rightarrow>
          if \<not> isClosed then g
          else if computeFaceArea rd g halfEdgesInFace \<le> 0 then g
          else g\<lparr>faces := faces g @ [halfEdgesInFace],
                 faceOf := fold (\<lambda>x al. (x, length (faces g)) # al) halfEdgesInFace (faceOf g)\<rparr>)"

definition buildFaces :: "(real \<Rightarrow> real) \<Rightarrow> Graph \<Rightarrow> Graph" where
  "buildFaces rd g =
     (let g1 = linkHalfEdgesAroundVertices g
      in fold (buildFace rd) (halfEdges g1) (g1\<lparr>faces := []\<rparr>))"

section \<open>Face queries\<close>

text \<open>A face is \<open>f\<close>, its index in \<open>faces g\<close>; \<^verbatim>\<open>this.halfEdges\<close> is \<open>faces g ! f\<close>.\<close>

definition pointIsInside :: "Graph \<Rightarrow> nat \<Rightarrow> vec2 \<Rightarrow> bool" where
  "pointIsInside g f point =
     (let intersections = fold (\<lambda>h n.
            if rayLineSegmentIntersect point (Vec2 1 0)
                 (pos g (vertex0 (edge h))) (pos g (vertex1 (edge h))) \<noteq> None
            then n + 1 else n) (faces g ! f) (0::nat)
      in intersections mod 2 = 1)"

definition neighborStep :: "Graph \<Rightarrow> nat \<Rightarrow> GraphHalfEdge \<Rightarrow> nat list \<Rightarrow> nat list" where
  "neighborStep g f h neighbors =
     (if map_of (faceOf g) h \<noteq> Some f then neighbors
      else case map_of (faceOf g) (twin h) of
             None \<Rightarrow> neighbors
           | Some neighbor \<Rightarrow>
               if neighbor \<noteq> f \<and> neighbor \<notin> set neighbors then neighbors @ [neighbor]
               else neighbors)"

definition neighboringFaces :: "Graph \<Rightarrow> nat \<Rightarrow> nat list" where
  "neighboringFaces g f = fold (neighborStep g f) (faces g ! f) []"

definition frontierStep :: "nat list \<Rightarrow> nat \<Rightarrow> nat list \<Rightarrow> nat list" where
  "frontierStep visited neighbor nf =
     (if neighbor \<in> set visited then nf
      else if neighbor \<in> set nf then nf
      else nf @ [neighbor])"

definition nextFrontier :: "Graph \<Rightarrow> nat list \<Rightarrow> nat list \<Rightarrow> nat list" where
  "nextFrontier g visited frontier =
     fold (\<lambda>face nf. fold (frontierStep visited) (neighboringFaces g face) nf) frontier []"

text \<open>The \<^verbatim>\<open>while(frontier.length)\<close> loop of \<^verbatim>\<open>shellLayers\<close>; the result is the
  list of layers pushed from this iteration on.\<close>

function shellLoop :: "Graph \<Rightarrow> nat list \<Rightarrow> nat list \<Rightarrow> nat list list" where
  "shellLoop g visited frontier =
     (if frontier = [] then []
      else frontier # shellLoop g (visited @ frontier) (nextFrontier g (visited @ frontier) frontier))"
  by pat_completeness auto

lemma set_neighborStep: "set (neighborStep g f h ns) \<subseteq> set ns \<union> snd ` set (faceOf g)"
  by (auto simp: neighborStep_def split: option.splits dest!: map_of_SomeD intro: rev_image_eqI)

lemma set_fold_neighborStep:
  "set (fold (neighborStep g f) hs ns) \<subseteq> set ns \<union> snd ` set (faceOf g)"
proof (induction hs arbitrary: ns)
  case Nil
  show ?case by simp
next
  case (Cons h hs)
  have "set (fold (neighborStep g f) hs (neighborStep g f h ns))
      \<subseteq> set (neighborStep g f h ns) \<union> snd ` set (faceOf g)"
    by (rule Cons.IH)
  also have "\<dots> \<subseteq> set ns \<union> snd ` set (faceOf g)"
    using set_neighborStep[of g f h ns] by blast
  finally show ?case by simp
qed

lemma neighboringFaces_subset: "set (neighboringFaces g f) \<subseteq> snd ` set (faceOf g)"
  using set_fold_neighborStep[of g f "faces g ! f" "[]"]
  by (simp add: neighboringFaces_def)

lemma set_fold_frontierStep:
  "set (fold (frontierStep visited) ns nf) = set nf \<union> (set ns - set visited)"
  by (induction ns arbitrary: nf) (auto simp: frontierStep_def)

lemma set_fold_nextFrontier:
  "set (fold (\<lambda>face nf. fold (frontierStep visited) (neighboringFaces g face) nf) fs nf0)
   = set nf0 \<union> ((\<Union>face\<in>set fs. set (neighboringFaces g face)) - set visited)"
  by (induction fs arbitrary: nf0) (auto simp: set_fold_frontierStep)

lemma set_nextFrontier:
  "set (nextFrontier g visited frontier)
     = (\<Union>face\<in>set frontier. set (neighboringFaces g face)) - set visited"
  by (simp add: nextFrontier_def set_fold_nextFrontier)

termination shellLoop
proof (relation "measure (\<lambda>(g, visited, frontier).
     3 * card (snd ` set (faceOf g) - set visited)
     + (if frontier = [] then 0
        else if set frontier \<inter> (snd ` set (faceOf g) - set visited) = {} then 2 else 1))")
  show "wf (measure (\<lambda>(g, visited, frontier).
     3 * card (snd ` set (faceOf g) - set visited)
     + (if frontier = [] then 0
        else if set frontier \<inter> (snd ` set (faceOf g) - set visited) = {} then 2 else 1)))"
    by simp
next
  fix g :: Graph and visited frontier :: "nat list"
  assume ne: "frontier \<noteq> []"
  define U where "U = snd ` set (faceOf g)"
  define F' where "F' = nextFrontier g (visited @ frontier) frontier"
  have finU: "finite U" by (simp add: U_def)
  have sub: "set F' \<subseteq> U - set (visited @ frontier)"
    unfolding F'_def U_def set_nextFrontier using neighboringFaces_subset by fastforce
  have "3 * card (U - set (visited @ frontier))
         + (if F' = [] then 0 else if set F' \<inter> (U - set (visited @ frontier)) = {} then 2 else 1)
       < 3 * card (U - set visited)
         + (if frontier = [] then 0 else if set frontier \<inter> (U - set visited) = {} then 2 else 1)"
  proof (cases "set frontier \<inter> (U - set visited) = {}")
    case True
    then have eq: "U - set (visited @ frontier) = U - set visited" by auto
    have "F' = [] \<or> set F' \<inter> (U - set (visited @ frontier)) \<noteq> {}"
      using sub by (cases F') auto
    then show ?thesis using True ne eq by auto
  next
    case False
    then have "U - set (visited @ frontier) \<subset> U - set visited" by auto
    then have "card (U - set (visited @ frontier)) < card (U - set visited)"
      using finU by (intro psubset_card_mono) auto
    then show ?thesis using False ne by auto
  qed
  then show "((g, visited @ frontier, nextFrontier g (visited @ frontier) frontier), g, visited, frontier)
     \<in> measure (\<lambda>(g, visited, frontier).
     3 * card (snd ` set (faceOf g) - set visited)
     + (if frontier = [] then 0
        else if set frontier \<inter> (snd ` set (faceOf g) - set visited) = {} then 2 else 1))"
    unfolding U_def F'_def in_measure by (simp only: prod.case)
qed

definition shellLayers :: "Graph \<Rightarrow> nat \<Rightarrow> nat list list" where
  "shellLayers g f = shellLoop g [] [f]"


section \<open>The constructor for serialized data\<close>

definition fromSerialized :: "(real \<Rightarrow> real) \<Rightarrow> GraphSerialized \<Rightarrow> Graph" where
  "fromSerialized rd data = buildFaces rd (loadFromSerialized rd data Graph_init)"

section \<open>Pruning of small angles and sparse vertices\<close>

text \<open>\<^verbatim>\<open>GraphEdge.length\<close>: \<^verbatim>\<open>Math.hypot\<close> of the rounded difference of the end
  positions.\<close>

definition edge_length :: "(real \<Rightarrow> real) \<Rightarrow> Graph \<Rightarrow> GraphEdge \<Rightarrow> real" where
  "edge_length rd g e =
     (let d = round_vec2 rd (vec2_sub (pos g (vertex1 e)) (pos g (vertex0 e)))
      in rd (sqrt ((x_of d)\<^sup>2 + (y_of d)\<^sup>2)))"

text \<open>The body of the inner loop of \<^verbatim>\<open>removeSmallAngles\<close> for index \<open>i\<close> of the copy
  \<open>es\<close> of the vertex's edge list; the state is the graph and \<^verbatim>\<open>removedEdge\<close>.\<close>

definition anglePairStep ::
    "(real \<Rightarrow> real) \<Rightarrow> real \<Rightarrow> nat \<Rightarrow> GraphEdge list \<Rightarrow> nat \<Rightarrow> Graph \<times> bool \<Rightarrow> Graph \<times> bool" where
  "anglePairStep rd threshold v es i = (\<lambda>(g, removedEdge).
     let edgeA = es ! i;
         edgeB = es ! ((i + 1) mod length es)
     in if edgeA \<notin> set (vedges g v) \<or> edgeB \<notin> set (vedges g v) then (g, removedEdge)
        else if edgeA = edgeB then (g, removedEdge)
        else
          let angleA = edgeAngle rd g v edgeA;
              angleB = edgeAngle rd g v edgeB;
              difference = rd (angleB - angleA);
              angleDelta = (if difference \<le> 0 then rd (difference + rd (2 * rd pi))
                            else difference)
          in if threshold \<le> angleDelta then (g, removedEdge)
             else (removeEdge (if edge_length rd g edgeB \<le> edge_length rd g edgeA
                               then edgeA else edgeB) g,
                   True))"

definition angleVertexStep ::
    "(real \<Rightarrow> real) \<Rightarrow> real \<Rightarrow> nat \<Rightarrow> Graph \<times> bool \<Rightarrow> Graph \<times> bool" where
  "angleVertexStep rd threshold v = (\<lambda>(g, removedEdge).
     let es = vedges g v
     in if length (vedges g v) < 2 then (g, removedEdge)
        else fold (anglePairStep rd threshold v es) [0 ..< length es] (g, removedEdge))"

definition removeSmallAngles :: "(real \<Rightarrow> real) \<Rightarrow> real \<Rightarrow> Graph \<Rightarrow> Graph \<times> bool" where
  "removeSmallAngles rd threshold g = fold (angleVertexStep rd threshold) (vertices g) (g, False)"

text \<open>The first loop of \<^verbatim>\<open>removeSparseVertices\<close> collects the vertices with no or one
  edge (removing the one edge); the second removes them.\<close>

definition sparseCollect :: "nat \<Rightarrow> Graph \<times> nat list \<Rightarrow> Graph \<times> nat list" where
  "sparseCollect v = (\<lambda>(g, verticesToRemove).
     let incidentEdges = vedges g v
     in if length incidentEdges = 0 then (g, verticesToRemove @ [v])
        else if length incidentEdges = 1
             then (removeEdge (incidentEdges ! 0) g, verticesToRemove @ [v])
             else (g, verticesToRemove))"

definition sparseRemove :: "nat \<Rightarrow> Graph \<Rightarrow> Graph" where
  "sparseRemove v g =
     (let g' = fold removeEdge (vedges g v) g
      in g'\<lparr>vertices := remove1 v (vertices g')\<rparr>)"

definition removeSparseVertices :: "Graph \<Rightarrow> Graph \<times> bool" where
  "removeSparseVertices g =
     (case fold sparseCollect (vertices g) (g, []) of
        (g1, verticesToRemove) \<Rightarrow>
          if verticesToRemove = [] then (g1, False)
          else (fold sparseRemove verticesToRemove g1, True))"

text \<open>Three vertices on one horizontal line, \<open>(-9/10, 0)\<close>, \<open>(-9/20, 0)\<close> and \<open>(0, 0)\<close>
  (the positions for the random numbers \<open>0, 1/2, 1/4, 1/2, 1/2, 1/2\<close>), with the
  three edges between them as \<^verbatim>\<open>createEdges\<close> registers them (any two of the three
  pairs share a vertex, so no pair is tested for a crossing) and the edge lists
  sorted by direction angle.\<close>

definition collinearGraph :: Graph where
  "collinearGraph = Graph_init \<lparr>
     vertices := [0, 1, 2],
     pos := (\<lambda>v. if v = 0 then Vec2 (- 9 / 10) 0 else if v = 1 then Vec2 (- 9 / 20) 0 else Vec2 0 0),
     vedges := (\<lambda>v. if v = 0 then [GraphEdge 0 0 1, GraphEdge 1 0 2]
                     else if v = 1 then [GraphEdge 2 1 2, GraphEdge 0 0 1]
                     else if v = 2 then [GraphEdge 1 0 2, GraphEdge 2 1 2] else []),
     edges := [GraphEdge 0 0 1, GraphEdge 1 0 2, GraphEdge 2 1 2],
     halfEdges := [halfEdgeFromVertex0 (GraphEdge 0 0 1), halfEdgeFromVertex1 (GraphEdge 0 0 1),
                   halfEdgeFromVertex0 (GraphEdge 1 0 2), halfEdgeFromVertex1 (GraphEdge 1 0 2),
                   halfEdgeFromVertex0 (GraphEdge 2 1 2), halfEdgeFromVertex1 (GraphEdge 2 1 2)] \<rparr>"

section \<open>Vocabulary of the properties\<close>

text \<open>Geometric vocabulary used to state the properties of the predicates.\<close>

definition collinear_or_parallel :: "vec2 \<Rightarrow> vec2 \<Rightarrow> vec2 \<Rightarrow> vec2 \<Rightarrow> bool" where
  "collinear_or_parallel a0 a1 b0 b1 =
     (\<exists>k. vec2_sub b1 b0 = vec2_scale (vec2_sub a1 a0) k \<or>
          vec2_sub a1 a0 = vec2_scale (vec2_sub b1 b0) k)"

definition onSegment :: "vec2 \<Rightarrow> vec2 \<Rightarrow> vec2 \<Rightarrow> bool" where
  "onSegment p a0 a1 =
     (\<exists>t. 0 \<le> t \<and> t \<le> 1 \<and> p = vec2_add a0 (vec2_scale (vec2_sub a1 a0) t))"

text \<open>A face whose half-edges lie on the four sides of the unit square, one on each
  side, whichever way the underlying edge is directed and wherever the list starts.\<close>

definition unitSquareSides :: "(vec2 \<times> vec2) list" where
  "unitSquareSides =
     [(Vec2 0 0, Vec2 1 0), (Vec2 1 0, Vec2 1 1), (Vec2 1 1, Vec2 0 1), (Vec2 0 1, Vec2 0 0)]"

definition liesOn :: "Graph \<Rightarrow> GraphHalfEdge \<Rightarrow> vec2 \<times> vec2 \<Rightarrow> bool" where
  "liesOn g h side =
     ((pos g (vertex0 (edge h)), pos g (vertex1 (edge h))) = side \<or>
      (pos g (vertex1 (edge h)), pos g (vertex0 (edge h))) = side)"

definition unitSquareFace :: "Graph \<Rightarrow> nat \<Rightarrow> bool" where
  "unitSquareFace g f =
     (\<exists>sides. mset sides = mset unitSquareSides \<and> list_all2 (liesOn g) (faces g ! f) sides)"

definition rayHits :: "vec2 \<Rightarrow> vec2 \<times> vec2 \<Rightarrow> bool" where
  "rayHits point = (\<lambda>(v0, v1). rayLineSegmentIntersect point (Vec2 1 0) v0 v1 \<noteq> None)"

definition unitSquareGraph :: Graph where
  "unitSquareGraph = Graph_init
     \<lparr>vertices := [0, 1, 2, 3],
      pos := (\<lambda>v. if v = 0 then Vec2 0 0 else if v = 1 then Vec2 1 0
                  else if v = 2 then Vec2 1 1 else Vec2 0 1),
      edges := [GraphEdge 0 0 1, GraphEdge 1 1 2, GraphEdge 2 2 3, GraphEdge 3 0 3],
      faces := [[halfEdgeFromVertex0 (GraphEdge 0 0 1), halfEdgeFromVertex0 (GraphEdge 1 1 2),
                 halfEdgeFromVertex0 (GraphEdge 2 2 3), halfEdgeFromVertex1 (GraphEdge 3 0 3)]]\<rparr>"

text \<open>An entry of \<^verbatim>\<open>data.edges\<close> (with its position) whose indices are in range, and
  the edge created for it.\<close>

definition validEntry :: "nat \<Rightarrow> nat \<times> int \<times> int \<Rightarrow> bool" where
  "validEntry n = (\<lambda>(k, index0, index1).
     0 \<le> index0 \<and> index0 < int n \<and> 0 \<le> index1 \<and> index1 < int n)"

definition entryEdge :: "nat list \<Rightarrow> nat \<times> int \<times> int \<Rightarrow> GraphEdge" where
  "entryEdge vs = (\<lambda>(k, index0, index1). GraphEdge k (vs ! nat index0) (vs ! nat index1))"

text \<open>Coordinates small enough that no difference and no product formed by the segment
  test leaves the finite range of binary64.\<close>

definition boundedCoordinates :: "vec2 \<Rightarrow> bool" where
  "boundedCoordinates p \<longleftrightarrow> \<bar>x_of p\<bar> \<le> 2 ^ 500 \<and> \<bar>y_of p\<bar> \<le> 2 ^ 500"

text \<open>A closed boundary walk: a non-empty list of distinct half-edges in which the
  \<^verbatim>\<open>next\<close> field of each element is the following element, and that of the last
  element is the first.\<close>

definition isCycle :: "Graph \<Rightarrow> GraphHalfEdge list \<Rightarrow> bool" where
  "isCycle g hs \<longleftrightarrow>
     hs \<noteq> [] \<and> distinct hs \<and>
     (\<forall>k<length hs. map_of (nextOf g) (hs ! k) = Some (hs ! ((k + 1) mod length hs)))"

text \<open>The state in which the constructor calls \<^verbatim>\<open>buildFaces\<close>: every edge listed at a
  vertex is an edge of the graph, both half-edges of every edge are listed, and no
  \<^verbatim>\<open>next\<close> or \<^verbatim>\<open>face\<close> field is set.\<close>

definition preBuild :: "Graph \<Rightarrow> bool" where
  "preBuild g \<longleftrightarrow>
     (\<forall>v. set (vedges g v) \<subseteq> set (edges g)) \<and>
     (\<forall>e\<in>set (edges g). halfEdgeFromVertex0 e \<in> set (halfEdges g) \<and>
                          halfEdgeFromVertex1 e \<in> set (halfEdges g)) \<and>
     nextOf g = [] \<and> faceOf g = []"

text \<open>What face extraction establishes: the \<^verbatim>\<open>face\<close> field of a half-edge is the face
  whose list contains it; every face is a closed boundary walk of half-edges of the
  graph with positive area.\<close>

definition facesInv :: "(real \<Rightarrow> real) \<Rightarrow> Graph \<Rightarrow> bool" where
  "facesInv rd g \<longleftrightarrow>
     (\<forall>h i. map_of (faceOf g) h = Some i \<longrightarrow> i < length (faces g) \<and> h \<in> set (faces g ! i)) \<and>
     (\<forall>i<length (faces g). \<forall>h\<in>set (faces g ! i). map_of (faceOf g) h = Some i) \<and>
     (\<forall>F\<in>set (faces g). isCycle g F \<and> 0 < computeFaceArea rd g F \<and> set F \<subseteq> set (halfEdges g))"

definition nextClosed :: "Graph \<Rightarrow> bool" where
  "nextClosed g \<longleftrightarrow>
     (\<forall>a b. map_of (nextOf g) a = Some b \<longrightarrow> b \<in> set (halfEdges g))"

text \<open>The half-edge partition of a built graph: no half-edge is in two faces or
  twice in one; a half-edge of a face carries that face and is a half-edge of the
  graph; the half-edges of the faces and the half-edges without a face are disjoint
  and together are all half-edges of the graph.\<close>

definition halfEdgePartition :: "Graph \<Rightarrow> bool" where
  "halfEdgePartition g \<longleftrightarrow>
     (\<forall>i<length (faces g). \<forall>j<length (faces g). i \<noteq> j \<longrightarrow>
        set (faces g ! i) \<inter> set (faces g ! j) = {}) \<and>
     (\<forall>F\<in>set (faces g). distinct F) \<and>
     (\<Union>F\<in>set (faces g). set F) \<union> {h \<in> set (halfEdges g). map_of (faceOf g) h = None}
        = set (halfEdges g) \<and>
     (\<Union>F\<in>set (faces g). set F) \<inter> {h \<in> set (halfEdges g). map_of (faceOf g) h = None} = {}"

text \<open>A list of half-edges in which each element but the last has the following
  element as its \<^verbatim>\<open>next\<close>.\<close>

definition chain :: "Graph \<Rightarrow> GraphHalfEdge list \<Rightarrow> bool" where
  "chain g hs \<longleftrightarrow> (\<forall>k. Suc k < length hs \<longrightarrow> map_of (nextOf g) (hs ! k) = Some (hs ! Suc k))"

text \<open>The shoelace formula for the polygon with the corners \<open>ps\<close>: half the sum of the
  cross products of consecutive corners (the last with the first), added up in the
  order of the list, every operation rounded by \<open>rd\<close>. The cross product of \<open>p\<close>
  and \<open>q\<close> is \<open>p.x * q.y - p.y * q.x\<close>.\<close>

definition shoelaceArea :: "(real \<Rightarrow> real) \<Rightarrow> vec2 list \<Rightarrow> real" where
  "shoelaceArea rd ps =
     rd (fold (\<lambda>k area.
              rd (area + rd (rd (x_of (ps ! k) * y_of (ps ! ((k + 1) mod length ps)))
                           - rd (y_of (ps ! k) * x_of (ps ! ((k + 1) mod length ps))))))
           [0 ..< length ps] 0 / 2)"



text \<open>Invariant of the edge lists kept by \<^verbatim>\<open>registerEdge\<close>: an edge listed at a
  vertex is an edge of the graph, and both half-edges of every edge are listed.\<close>

definition edgesInv :: "Graph \<Rightarrow> bool" where
  "edgesInv g \<longleftrightarrow>
     (\<forall>v. set (vedges g v) \<subseteq> set (edges g)) \<and>
     (\<forall>e\<in>set (edges g). halfEdgeFromVertex0 e \<in> set (halfEdges g) \<and>
                          halfEdgeFromVertex1 e \<in> set (halfEdges g))"

text \<open>The faces adjacent to face \<open>f\<close> through twin half-edges: the faces, other than
  \<open>f\<close>, carried by the twin of a half-edge of \<open>f\<close>.\<close>

definition neighborsViaTwins :: "Graph \<Rightarrow> nat \<Rightarrow> nat set" where
  "neighborsViaTwins g f =
     {n. n \<noteq> f \<and> (\<exists>h\<in>set (faces g ! f). map_of (faceOf g) (twin h) = Some n)}"

text \<open>Breadth-first layers \<open>L\<close> grown from the frontier \<open>F\<close> when the faces in \<open>V\<close> have
  been visited before: the first layer is \<open>F\<close>, no layer is empty, no face occurs twice
  or occurs in \<open>V\<close>, each further layer consists exactly of the faces returned by
  \<^verbatim>\<open>neighboringFaces\<close> for a face of the layer before that are neither in \<open>V\<close> nor
  in an earlier layer, and no such face is left after the last layer.\<close>

definition layersFrom :: "Graph \<Rightarrow> nat list \<Rightarrow> nat list \<Rightarrow> nat list list \<Rightarrow> bool" where
  "layersFrom g V F L \<longleftrightarrow>
     (F = [] \<longrightarrow> L = []) \<and>
     (F \<noteq> [] \<longrightarrow> L \<noteq> [] \<and> L ! 0 = F) \<and>
     [] \<notin> set L \<and>
     distinct (concat L) \<and> set (concat L) \<inter> set V = {} \<and>
     (\<forall>k. Suc k < length L \<longrightarrow>
        set (L ! Suc k) =
          (\<Union>x\<in>set (L ! k). set (neighboringFaces g x)) - (set V \<union> (\<Union>l\<in>set (take (Suc k) L). set l))) \<and>
     (L \<noteq> [] \<longrightarrow>
        (\<Union>x\<in>set (last L). set (neighboringFaces g x)) - (set V \<union> (\<Union>l\<in>set L. set l)) = {})"

text \<open>The \<^verbatim>\<open>face\<close> fields and the \<^verbatim>\<open>halfEdges\<close> lists of the faces agree: a half-edge
  carries face \<open>i\<close> exactly when it is in the list of face \<open>i\<close>.\<close>

definition faceFieldsAgree :: "Graph \<Rightarrow> bool" where
  "faceFieldsAgree g \<longleftrightarrow>
     (\<forall>h i. map_of (faceOf g) h = Some i \<longrightarrow> i < length (faces g) \<and> h \<in> set (faces g ! i)) \<and>
     (\<forall>i<length (faces g). \<forall>h\<in>set (faces g ! i). map_of (faceOf g) h = Some i)"

text \<open>Three triangles in a row, \<open>0 1 2\<close>, \<open>0 2 3\<close> and \<open>0 3 4\<close>, as face extraction leaves
  them: face 0 and face 1 share the edge \<open>2 0\<close>, face 1 and face 2 the edge \<open>3 0\<close>.\<close>

definition triangleStrip :: Graph where
  "triangleStrip = Graph_init \<lparr>
     vertices := [0, 1, 2, 3, 4],
     faces := [[halfEdgeFromVertex0 (GraphEdge 0 0 1), halfEdgeFromVertex0 (GraphEdge 1 1 2),
                halfEdgeFromVertex0 (GraphEdge 2 2 0)],
               [halfEdgeFromVertex1 (GraphEdge 2 2 0), halfEdgeFromVertex0 (GraphEdge 3 2 3),
                halfEdgeFromVertex0 (GraphEdge 4 3 0)],
               [halfEdgeFromVertex1 (GraphEdge 4 3 0), halfEdgeFromVertex0 (GraphEdge 5 3 4),
                halfEdgeFromVertex0 (GraphEdge 6 4 0)]],
     faceOf := [(halfEdgeFromVertex0 (GraphEdge 0 0 1), 0), (halfEdgeFromVertex0 (GraphEdge 1 1 2), 0),
                (halfEdgeFromVertex0 (GraphEdge 2 2 0), 0),
                (halfEdgeFromVertex1 (GraphEdge 2 2 0), 1), (halfEdgeFromVertex0 (GraphEdge 3 2 3), 1),
                (halfEdgeFromVertex0 (GraphEdge 4 3 0), 1),
                (halfEdgeFromVertex1 (GraphEdge 4 3 0), 2), (halfEdgeFromVertex0 (GraphEdge 5 3 4), 2),
                (halfEdgeFromVertex0 (GraphEdge 6 4 0), 2)] \<rparr>"

text \<open>The triangle with corners \<open>(0,0)\<close>, \<open>(1,0)\<close>, \<open>(0,1)\<close> as the constructor hands it
  to face extraction: three registered edges, the edge list of each vertex sorted
  by direction angle.\<close>

definition triangleGraph :: Graph where
  "triangleGraph = Graph_init \<lparr>
     vertices := [0, 1, 2],
     pos := (\<lambda>v. if v = 0 then Vec2 0 0 else if v = 1 then Vec2 1 0 else Vec2 0 1),
     vedges := (\<lambda>v. if v = 0 then [GraphEdge 0 0 1, GraphEdge 2 2 0]
                     else if v = 1 then [GraphEdge 1 1 2, GraphEdge 0 0 1]
                     else if v = 2 then [GraphEdge 2 2 0, GraphEdge 1 1 2] else []),
     edges := [GraphEdge 0 0 1, GraphEdge 1 1 2, GraphEdge 2 2 0],
     halfEdges := [halfEdgeFromVertex0 (GraphEdge 0 0 1), halfEdgeFromVertex1 (GraphEdge 0 0 1),
                   halfEdgeFromVertex0 (GraphEdge 1 1 2), halfEdgeFromVertex1 (GraphEdge 1 1 2),
                   halfEdgeFromVertex0 (GraphEdge 2 2 0), halfEdgeFromVertex1 (GraphEdge 2 2 0)] \<rparr>"

section \<open>What each operation leaves unchanged\<close>

lemma fold_preserves:
  assumes "\<And>a s. F (f a s) = F s"
  shows "F (fold f xs s) = F s"
  using assms by (induction xs arbitrary: s) auto

lemma normalize_frame [simp]:
  "vertices (normalizeVerticesToGraphSpace rd g) = vertices g"
  "edges (normalizeVerticesToGraphSpace rd g) = edges g"
  "vedges (normalizeVerticesToGraphSpace rd g) = vedges g"
  "halfEdges (normalizeVerticesToGraphSpace rd g) = halfEdges g"
  "faces (normalizeVerticesToGraphSpace rd g) = faces g"
  "nextOf (normalizeVerticesToGraphSpace rd g) = nextOf g"
  "faceOf (normalizeVerticesToGraphSpace rd g) = faceOf g"
  by (simp_all add: normalizeVerticesToGraphSpace_def collapseToOrigin_def Let_def
      split: option.splits prod.splits)

lemma registerEdge_frame [simp]:
  "vertices (registerEdge e g) = vertices g"
  "pos (registerEdge e g) = pos g"
  "edges (registerEdge e g) = edges g @ [e]"
  "halfEdges (registerEdge e g) = halfEdges g @ [halfEdgeFromVertex0 e, halfEdgeFromVertex1 e]"
  "faces (registerEdge e g) = faces g"
  "nextOf (registerEdge e g) = nextOf g"
  "faceOf (registerEdge e g) = faceOf g"
  by (simp_all add: registerEdge_def Let_def)

lemma sortEdgesCCW_frame [simp]:
  "vertices (sortEdgesCCW rd v g) = vertices g"
  "pos (sortEdgesCCW rd v g) = pos g"
  "edges (sortEdgesCCW rd v g) = edges g"
  "halfEdges (sortEdgesCCW rd v g) = halfEdges g"
  "faces (sortEdgesCCW rd v g) = faces g"
  "nextOf (sortEdgesCCW rd v g) = nextOf g"
  "faceOf (sortEdgesCCW rd v g) = faceOf g"
  by (simp_all add: sortEdgesCCW_def)

lemma fold_sortEdgesCCW_frame [simp]:
  "vertices (fold (sortEdgesCCW rd) vs g) = vertices g"
  "pos (fold (sortEdgesCCW rd) vs g) = pos g"
  "edges (fold (sortEdgesCCW rd) vs g) = edges g"
  "halfEdges (fold (sortEdgesCCW rd) vs g) = halfEdges g"
  "faces (fold (sortEdgesCCW rd) vs g) = faces g"
  "nextOf (fold (sortEdgesCCW rd) vs g) = nextOf g"
  "faceOf (fold (sortEdgesCCW rd) vs g) = faceOf g"
  by (rule fold_preserves, simp)+

lemma loadEdge_frame [simp]:
  "vertices (loadEdge a g) = vertices g"
  "pos (loadEdge a g) = pos g"
  "faces (loadEdge a g) = faces g"
  "nextOf (loadEdge a g) = nextOf g"
  "faceOf (loadEdge a g) = faceOf g"
  by (simp_all add: loadEdge_def split: prod.splits option.splits)

lemma fold_loadEdge_frame [simp]:
  "vertices (fold loadEdge as g) = vertices g"
  "pos (fold loadEdge as g) = pos g"
  "faces (fold loadEdge as g) = faces g"
  "nextOf (fold loadEdge as g) = nextOf g"
  "faceOf (fold loadEdge as g) = faceOf g"
  by (rule fold_preserves, simp)+

lemma loadEdge_edges:
  "edges (loadEdge a g) =
     edges g @ (if validEntry (length (vertices g)) a then [entryEdge (vertices g) a] else [])"
  by (auto simp: loadEdge_def validEntry_def entryEdge_def array_get_def split: prod.splits)

lemma fold_loadEdge_edges:
  "edges (fold loadEdge as g) =
     edges g @ map (entryEdge (vertices g)) (filter (validEntry (length (vertices g))) as)"
  by (induction as arbitrary: g) (auto simp: loadEdge_edges)

lemma linkStep_frame [simp]:
  "vertices (linkStep out i g) = vertices g"
  "pos (linkStep out i g) = pos g"
  "vedges (linkStep out i g) = vedges g"
  "edges (linkStep out i g) = edges g"
  "halfEdges (linkStep out i g) = halfEdges g"
  "faces (linkStep out i g) = faces g"
  "faceOf (linkStep out i g) = faceOf g"
  by (simp_all add: linkStep_def)

lemma fold_linkStep_frame [simp]:
  "vertices (fold (linkStep out) ks g) = vertices g"
  "pos (fold (linkStep out) ks g) = pos g"
  "vedges (fold (linkStep out) ks g) = vedges g"
  "edges (fold (linkStep out) ks g) = edges g"
  "halfEdges (fold (linkStep out) ks g) = halfEdges g"
  "faces (fold (linkStep out) ks g) = faces g"
  "faceOf (fold (linkStep out) ks g) = faceOf g"
  by (rule fold_preserves, simp)+

lemma fold_linkStep_nextOf:
  "nextOf (fold (linkStep out) ks g) =
     rev (map (\<lambda>i. (twin (out ! i), out ! ((i + length out - 1) mod length out))) ks) @ nextOf g"
  by (induction ks arbitrary: g) (simp_all add: linkStep_def)

lemma linkVertex_frame [simp]:
  "vertices (linkVertex v g) = vertices g"
  "pos (linkVertex v g) = pos g"
  "vedges (linkVertex v g) = vedges g"
  "edges (linkVertex v g) = edges g"
  "halfEdges (linkVertex v g) = halfEdges g"
  "faces (linkVertex v g) = faces g"
  "faceOf (linkVertex v g) = faceOf g"
  by (simp_all add: linkVertex_def Let_def)

lemma link_frame [simp]:
  "vertices (linkHalfEdgesAroundVertices g) = vertices g"
  "pos (linkHalfEdgesAroundVertices g) = pos g"
  "vedges (linkHalfEdgesAroundVertices g) = vedges g"
  "edges (linkHalfEdgesAroundVertices g) = edges g"
  "halfEdges (linkHalfEdgesAroundVertices g) = halfEdges g"
  "faces (linkHalfEdgesAroundVertices g) = faces g"
  "faceOf (linkHalfEdgesAroundVertices g) = faceOf g"
  unfolding linkHalfEdgesAroundVertices_def
  by (rule fold_preserves, simp)+

lemma buildFace_frame [simp]:
  "vertices (buildFace rd h g) = vertices g"
  "pos (buildFace rd h g) = pos g"
  "vedges (buildFace rd h g) = vedges g"
  "edges (buildFace rd h g) = edges g"
  "halfEdges (buildFace rd h g) = halfEdges g"
  "nextOf (buildFace rd h g) = nextOf g"
  by (simp_all add: buildFace_def split: prod.splits)

lemma buildFaces_frame [simp]:
  "vertices (buildFaces rd g) = vertices g"
  "pos (buildFaces rd g) = pos g"
  "vedges (buildFaces rd g) = vedges g"
  "edges (buildFaces rd g) = edges g"
  "halfEdges (buildFaces rd g) = halfEdges g"
  unfolding buildFaces_def Let_def
  by (simp_all add: fold_preserves[where F=vertices] fold_preserves[where F=pos]
      fold_preserves[where F=vedges] fold_preserves[where F=edges]
      fold_preserves[where F=halfEdges])

lemma buildFaces_nextOf [simp]:
  "nextOf (buildFaces rd g) = nextOf (linkHalfEdgesAroundVertices g)"
  unfolding buildFaces_def Let_def
  by (simp add: fold_preserves[where F=nextOf])

lemma loadFromSerialized_vertices:
  "vertices (loadFromSerialized rd data g)
     = vertices g @ [length (vertices g) ..< length (vertices g) + length (ser_vertices data)]"
  by (simp add: loadFromSerialized_def Let_def)

lemma loadFromSerialized_edges:
  "edges (loadFromSerialized rd data g)
     = edges g @ map (entryEdge (vertices (loadFromSerialized rd data g)))
         (filter (validEntry (length (vertices g) + length (ser_vertices data)))
            (List.enumerate 0 (ser_edges data)))"
  by (simp add: loadFromSerialized_def Let_def fold_loadEdge_edges)

section \<open>The point-in-face test\<close>

lemma fold_count_filter:
  "fold (\<lambda>h n. if P h then n + 1 else n) hs (k::nat) = k + length (filter P hs)"
  by (induction hs arbitrary: k) auto

lemma pointIsInside_count:
  "pointIsInside g f point \<longleftrightarrow>
     odd (length (filter (\<lambda>h. rayHits point (pos g (vertex0 (edge h)), pos g (vertex1 (edge h))))
       (faces g ! f)))"
  by (simp add: pointIsInside_def fold_count_filter rayHits_def odd_iff_mod_2_eq_one)

lemma rayHits_sides_center:
  "filter (rayHits (Vec2 (1/2) (1/2))) unitSquareSides = [(Vec2 1 0, Vec2 1 1)]"
  by (simp add: unitSquareSides_def rayHits_def rayLineSegmentIntersect_def Let_def
      js_div_def vec2_sub_def vec2_cross_def)

lemma rayHits_sides_outside:
  "filter (rayHits (Vec2 2 2)) unitSquareSides = []"
  by (simp add: unitSquareSides_def rayHits_def rayLineSegmentIntersect_def Let_def
      js_div_def vec2_sub_def vec2_cross_def)

lemma rayHits_swap_center:
  "side \<in> set unitSquareSides \<Longrightarrow>
   rayHits (Vec2 (1/2) (1/2)) (snd side, fst side) = rayHits (Vec2 (1/2) (1/2)) side"
  by (auto simp: unitSquareSides_def rayHits_def rayLineSegmentIntersect_def Let_def
      js_div_def vec2_sub_def vec2_cross_def)

lemma rayHits_swap_outside:
  "side \<in> set unitSquareSides \<Longrightarrow>
   rayHits (Vec2 2 2) (snd side, fst side) = rayHits (Vec2 2 2) side"
  by (auto simp: unitSquareSides_def rayHits_def rayLineSegmentIntersect_def Let_def
      js_div_def vec2_sub_def vec2_cross_def)

lemma liesOn_filter_length:
  assumes "list_all2 (liesOn g) hs sides"
    and "\<And>side. side \<in> set sides \<Longrightarrow> rayHits point (snd side, fst side) = rayHits point side"
  shows "length (filter (\<lambda>h. rayHits point (pos g (vertex0 (edge h)), pos g (vertex1 (edge h)))) hs)
       = length (filter (rayHits point) sides)"
  using assms
proof (induction hs sides rule: list_all2_induct)
  case Nil
  show ?case by simp
next
  case (Cons h hs side sides)
  have "rayHits point (pos g (vertex0 (edge h)), pos g (vertex1 (edge h))) = rayHits point side"
    using Cons.hyps(1) Cons.prems[of side] unfolding liesOn_def by (cases side) auto
  moreover have "length (filter (\<lambda>h. rayHits point (pos g (vertex0 (edge h)), pos g (vertex1 (edge h)))) hs)
       = length (filter (rayHits point) sides)"
    using Cons.IH Cons.prems by simp
  ultimately show ?case by simp
qed

lemma filter_length_mset:
  "mset xs = mset ys \<Longrightarrow> length (filter P xs) = length (filter P ys)"
  by (metis mset_filter size_mset)

text \<open>
  Claim C6. For a face whose boundary half-edges lie on the four sides of the unit
  square with corners (0,0), (1,0), (1,1), (0,1), the point-in-face test returns true
  for the point (0.5, 0.5) and false for the point (2, 2).
\<close>

theorem pointIsInside_unit_square:
  assumes "unitSquareFace g f"
  shows "pointIsInside g f (Vec2 (1/2) (1/2)) \<and> \<not> pointIsInside g f (Vec2 2 2)"
proof -
  from assms obtain sides where ms: "mset sides = mset unitSquareSides"
    and la: "list_all2 (liesOn g) (faces g ! f) sides"
    unfolding unitSquareFace_def by blast
  have sub: "set sides = set unitSquareSides" using ms by (rule mset_eq_setD)
  have "length (filter (\<lambda>h. rayHits (Vec2 (1/2) (1/2)) (pos g (vertex0 (edge h)), pos g (vertex1 (edge h))))
          (faces g ! f)) = length (filter (rayHits (Vec2 (1/2) (1/2))) sides)"
    using la by (rule liesOn_filter_length) (simp add: sub rayHits_swap_center)
  also have "\<dots> = length (filter (rayHits (Vec2 (1/2) (1/2))) unitSquareSides)"
    using ms by (rule filter_length_mset)
  finally have c: "length (filter (\<lambda>h. rayHits (Vec2 (1/2) (1/2)) (pos g (vertex0 (edge h)), pos g (vertex1 (edge h))))
          (faces g ! f)) = 1"
    by (simp add: rayHits_sides_center)
  have "length (filter (\<lambda>h. rayHits (Vec2 2 2) (pos g (vertex0 (edge h)), pos g (vertex1 (edge h))))
          (faces g ! f)) = length (filter (rayHits (Vec2 2 2)) sides)"
    using la by (rule liesOn_filter_length) (simp add: sub rayHits_swap_outside)
  also have "\<dots> = length (filter (rayHits (Vec2 2 2)) unitSquareSides)"
    using ms by (rule filter_length_mset)
  finally have d: "length (filter (\<lambda>h. rayHits (Vec2 2 2) (pos g (vertex0 (edge h)), pos g (vertex1 (edge h))))
          (faces g ! f)) = 0"
    by (simp add: rayHits_sides_outside)
  show ?thesis by (simp add: pointIsInside_count c d)
qed


theorem pointIsInside_unit_square_witness:
  "unitSquareFace unitSquareGraph 0 \<and>
   pointIsInside unitSquareGraph 0 (Vec2 (1/2) (1/2)) \<and>
   \<not> pointIsInside unitSquareGraph 0 (Vec2 2 2)"
proof -
  have "list_all2 (liesOn unitSquareGraph) (faces unitSquareGraph ! 0) unitSquareSides"
    by (simp add: unitSquareGraph_def unitSquareSides_def liesOn_def Graph_init_def
        halfEdgeFromVertex0_def halfEdgeFromVertex1_def)
  then have u: "unitSquareFace unitSquareGraph 0"
    unfolding unitSquareFace_def by blast
  from u pointIsInside_unit_square[OF u] show ?thesis by blast
qed

section \<open>Tolerant ingestion\<close>

text \<open>
  Claim C9. Deserialization creates an edge for exactly those entries whose two
  indices are positions of vertices, in the order of the entries; an entry with an
  index outside the range creates no edge, and the (total) function returns a
  graph for every input.
\<close>

theorem fromSerialized_drops_out_of_range:
  "vertices (fromSerialized rd data) = [0 ..< length (ser_vertices data)] \<and>
   edges (fromSerialized rd data) =
     map (\<lambda>(k, index0, index1). GraphEdge k (nat index0) (nat index1))
       (filter (\<lambda>(k, index0, index1).
            0 \<le> index0 \<and> index0 < int (length (ser_vertices data)) \<and>
            0 \<le> index1 \<and> index1 < int (length (ser_vertices data)))
          (List.enumerate 0 (ser_edges data)))"
proof -
  have v: "vertices (loadFromSerialized rd data Graph_init) = [0 ..< length (ser_vertices data)]"
    by (simp add: loadFromSerialized_vertices Graph_init_def)
  have "map (entryEdge [0 ..< length (ser_vertices data)])
          (filter (validEntry (length (ser_vertices data))) as)
      = map (\<lambda>(k, index0, index1). GraphEdge k (nat index0) (nat index1))
          (filter (validEntry (length (ser_vertices data))) as)" for as
    by (rule map_cong) (auto simp: entryEdge_def validEntry_def)
  then have "edges (loadFromSerialized rd data Graph_init)
      = map (\<lambda>(k, index0, index1). GraphEdge k (nat index0) (nat index1))
          (filter (validEntry (length (ser_vertices data))) (List.enumerate 0 (ser_edges data)))"
    by (simp add: loadFromSerialized_edges v) (simp add: Graph_init_def)
  with v show ?thesis
    by (simp add: fromSerialized_def validEntry_def)
qed

text \<open>The input with the single vertex (0,0) and the single edge entry (0,5) loads one
  vertex and no edge.\<close>

theorem fromSerialized_tolerant_example:
  "vertices (fromSerialized id (GraphSerialized [(0, 0)] [(0, 5)])) = [0] \<and>
   edges (fromSerialized id (GraphSerialized [(0, 0)] [(0, 5)])) = []"
  using fromSerialized_drops_out_of_range[of id "GraphSerialized [(0, 0)] [(0, 5)]"]
  by (simp add: enumerate_simps)

section \<open>Face extraction: the walk and its invariant\<close>

lemma chain_snoc:
  assumes "chain g acc" and "acc \<noteq> [] \<longrightarrow> map_of (nextOf g) (last acc) = Some c"
  shows "chain g (acc @ [c])"
  unfolding chain_def
proof (intro allI impI)
  fix k assume k: "Suc k < length (acc @ [c])"
  show "map_of (nextOf g) ((acc @ [c]) ! k) = Some ((acc @ [c]) ! Suc k)"
  proof (cases "Suc k < length acc")
    case True
    then show ?thesis using assms(1) by (simp add: chain_def nth_append)
  next
    case False
    with k have e: "Suc k = length acc" by simp
    then have ne: "acc \<noteq> []" by auto
    have "acc ! k = last acc" using e ne by (metis diff_Suc_1 last_conv_nth)
    then show ?thesis using e assms(2) ne by (simp add: nth_append)
  qed
qed

lemma walk_closed:
  assumes "walk g start acc cur = (hs, True)"
    and "distinct acc" and "chain g acc"
    and "acc \<noteq> [] \<longrightarrow> map_of (nextOf g) (last acc) = Some cur \<and> hd acc = start \<and> cur \<noteq> start"
    and "acc = [] \<longrightarrow> cur = start"
    and "\<forall>a\<in>set acc. map_of (faceOf g) a = None"
  shows "hs \<noteq> [] \<and> hd hs = start \<and> distinct hs \<and> chain g hs \<and>
         map_of (nextOf g) (last hs) = Some start \<and> (\<forall>a\<in>set hs. map_of (faceOf g) a = None)"
  using assms
proof (induction g start acc cur rule: walk.induct)
  case (1 g start acc cur)
  have notin: "cur \<notin> set acc"
  proof
    assume in_acc: "cur \<in> set acc"
    then have "walk g start acc cur = (acc, cur = start)" by simp
    with "1.prems"(1) have "cur = start" by simp
    moreover from in_acc have "acc \<noteq> []" by auto
    ultimately show False using "1.prems"(4) by simp
  qed
  have nof: "map_of (faceOf g) cur = None"
  proof (rule ccontr)
    assume "map_of (faceOf g) cur \<noteq> None"
    with notin have "walk g start acc cur = (acc, False)" by simp
    with "1.prems"(1) show False by simp
  qed
  obtain n where n: "map_of (nextOf g) cur = Some n"
  proof (cases "map_of (nextOf g) cur")
    case None
    with notin nof have "walk g start acc cur = (acc @ [cur], False)" by simp
    with "1.prems"(1) show ?thesis by simp
  next
    case (Some n)
    then show ?thesis using that by blast
  qed
  have d': "distinct (acc @ [cur])" using "1.prems"(2) notin by simp
  have c': "chain g (acc @ [cur])"
    using "1.prems"(3,4) by (intro chain_snoc) auto
  have hd': "hd (acc @ [cur]) = start"
    using "1.prems"(4,5) by (cases acc) auto
  have f': "\<forall>a\<in>set (acc @ [cur]). map_of (faceOf g) a = None"
    using "1.prems"(6) nof by simp
  show ?case
  proof (cases "n = start")
    case True
    with notin nof n have "walk g start acc cur = (acc @ [cur], True)" by simp
    with "1.prems"(1) have "hs = acc @ [cur]" by simp
    then show ?thesis using d' c' hd' f' n True by simp
  next
    case False
    with notin nof n have w: "walk g start acc cur = walk g start (acc @ [cur]) n" by simp
    show ?thesis
    proof (rule "1.IH"[OF notin _ n False])
      show "\<not> map_of (faceOf g) cur \<noteq> None" using nof by simp
      show "walk g start (acc @ [cur]) n = (hs, True)" using w "1.prems"(1) by simp
      show "distinct (acc @ [cur])" by (rule d')
      show "chain g (acc @ [cur])" by (rule c')
      show "acc @ [cur] \<noteq> [] \<longrightarrow>
        map_of (nextOf g) (last (acc @ [cur])) = Some n \<and> hd (acc @ [cur]) = start \<and> n \<noteq> start"
        using n hd' False by simp
      show "acc @ [cur] = [] \<longrightarrow> n = start" by simp
      show "\<forall>a\<in>set (acc @ [cur]). map_of (faceOf g) a = None" by (rule f')
    qed
  qed
qed

lemma chain_isCycle:
  assumes "hs \<noteq> []" "distinct hs" "chain g hs" "map_of (nextOf g) (last hs) = Some (hd hs)"
  shows "isCycle g hs"
  unfolding isCycle_def
proof (intro conjI allI impI)
  fix k assume k: "k < length hs"
  show "map_of (nextOf g) (hs ! k) = Some (hs ! ((k + 1) mod length hs))"
  proof (cases "Suc k < length hs")
    case True
    then show ?thesis using assms(3) by (simp add: chain_def)
  next
    case False
    with k have e: "Suc k = length hs" by simp
    then have "hs ! k = last hs" using assms(1) by (metis diff_Suc_1 last_conv_nth)
    moreover have "hs ! ((k + 1) mod length hs) = hd hs" using e assms(1) by (simp add: hd_conv_nth)
    ultimately show ?thesis using assms(4) by simp
  qed
qed (use assms in auto)

lemma chain_subset:
  assumes "chain g hs" "hs \<noteq> []" "hd hs \<in> set (halfEdges g)" "nextClosed g"
  shows "set hs \<subseteq> set (halfEdges g)"
proof -
  have "k < length hs \<Longrightarrow> hs ! k \<in> set (halfEdges g)" for k
  proof (induction k)
    case 0
    then show ?case using assms(2,3) by (simp add: hd_conv_nth)
  next
    case (Suc k)
    then have "map_of (nextOf g) (hs ! k) = Some (hs ! Suc k)" using assms(1) by (simp add: chain_def)
    then show ?case using assms(4) unfolding nextClosed_def by blast
  qed
  then show ?thesis by (auto simp: in_set_conv_nth)
qed

lemma walk_cycle:
  assumes "walk g h [] h = (hs, True)"
  shows "isCycle g hs \<and> hd hs = h \<and> (\<forall>a\<in>set hs. map_of (faceOf g) a = None) \<and> chain g hs"
proof -
  have "hs \<noteq> [] \<and> hd hs = h \<and> distinct hs \<and> chain g hs \<and>
         map_of (nextOf g) (last hs) = Some h \<and> (\<forall>a\<in>set hs. map_of (faceOf g) a = None)"
    using assms by (rule walk_closed) (simp_all add: chain_def)
  then show ?thesis using chain_isCycle[of hs g] by auto
qed


lemma map_of_fold_stamp:
  "map_of (fold (\<lambda>a al. (a, n) # al) hs al0) h = (if h \<in> set hs then Some n else map_of al0 h)"
  by (induction hs arbitrary: al0) auto

lemma faceAreaLoop_cong:
  "nextOf g' = nextOf g \<Longrightarrow> pos g' = pos g \<Longrightarrow> faceAreaLoop rd g' hs a = faceAreaLoop rd g hs a"
  by (induction hs arbitrary: a) (auto split: option.splits)

lemma computeFaceArea_cong:
  "nextOf g' = nextOf g \<Longrightarrow> pos g' = pos g \<Longrightarrow> computeFaceArea rd g' hs = computeFaceArea rd g hs"
  using faceAreaLoop_cong[of g' g rd hs 0] by (simp add: computeFaceArea_def)

lemma isCycle_cong: "nextOf g' = nextOf g \<Longrightarrow> isCycle g' hs = isCycle g hs"
  by (simp add: isCycle_def)

lemma nextClosed_cong:
  "nextOf g' = nextOf g \<Longrightarrow> halfEdges g' = halfEdges g \<Longrightarrow> nextClosed g' = nextClosed g"
  by (simp add: nextClosed_def)

lemma buildFace_cases:
  "buildFace rd h g = g \<or>
   (\<exists>hs. walk g h [] h = (hs, True) \<and> map_of (faceOf g) h = None \<and> 0 < computeFaceArea rd g hs \<and>
      buildFace rd h g = g\<lparr>faces := faces g @ [hs],
        faceOf := fold (\<lambda>a al. (a, length (faces g)) # al) hs (faceOf g)\<rparr>)"
  by (auto simp: buildFace_def split: prod.splits)

lemma buildFace_facesInv:
  assumes inv: "facesInv rd g" and nc: "nextClosed g" and h: "h \<in> set (halfEdges g)"
  shows "facesInv rd (buildFace rd h g)"
proof -
  from buildFace_cases[of rd h g] show ?thesis
  proof
    assume "buildFace rd h g = g"
    then show ?thesis using inv by simp
  next
    assume "\<exists>hs. walk g h [] h = (hs, True) \<and> map_of (faceOf g) h = None \<and> 0 < computeFaceArea rd g hs \<and>
      buildFace rd h g = g\<lparr>faces := faces g @ [hs],
        faceOf := fold (\<lambda>a al. (a, length (faces g)) # al) hs (faceOf g)\<rparr>"
    then obtain hs where w: "walk g h [] h = (hs, True)"
      and area: "0 < computeFaceArea rd g hs"
      and eq: "buildFace rd h g = g\<lparr>faces := faces g @ [hs],
        faceOf := fold (\<lambda>a al. (a, length (faces g)) # al) hs (faceOf g)\<rparr>"
      by blast
    define g' where "g' = buildFace rd h g"
    from walk_cycle[OF w] have cyc: "isCycle g hs" and hd: "hd hs = h"
      and free: "\<forall>a\<in>set hs. map_of (faceOf g) a = None" and ch: "chain g hs"
      by auto
    have ne: "hs \<noteq> []" using cyc by (simp add: isCycle_def)
    have sub: "set hs \<subseteq> set (halfEdges g)"
      using chain_subset[OF ch ne _ nc] hd h by simp
    have fo: "map_of (faceOf g') a = (if a \<in> set hs then Some (length (faces g)) else map_of (faceOf g) a)" for a
      by (simp add: g'_def eq map_of_fold_stamp)
    have fs: "faces g' = faces g @ [hs]" by (simp add: g'_def eq)
    have nx: "nextOf g' = nextOf g" and ps: "pos g' = pos g" and he: "halfEdges g' = halfEdges g"
      by (simp_all add: g'_def eq)
    from inv have i1: "\<And>a i. map_of (faceOf g) a = Some i \<Longrightarrow> i < length (faces g) \<and> a \<in> set (faces g ! i)"
      and i2: "\<And>i a. i < length (faces g) \<Longrightarrow> a \<in> set (faces g ! i) \<Longrightarrow> map_of (faceOf g) a = Some i"
      and i3: "\<And>F. F \<in> set (faces g) \<Longrightarrow> isCycle g F \<and> 0 < computeFaceArea rd g F \<and> set F \<subseteq> set (halfEdges g)"
      unfolding facesInv_def by blast+
    have "facesInv rd g'"
      unfolding facesInv_def
    proof (intro conjI allI impI ballI)
      fix a i assume a: "map_of (faceOf g') a = Some i"
      show "i < length (faces g')"
        using a i1[of a i] by (auto simp: fo fs split: if_splits)
      show "a \<in> set (faces g' ! i)"
        using a i1[of a i] by (auto simp: fo fs nth_append split: if_splits)
    next
      fix i a assume i: "i < length (faces g')" and a: "a \<in> set (faces g' ! i)"
      show "map_of (faceOf g') a = Some i"
      proof (cases "i < length (faces g)")
        case True
        with a have "a \<in> set (faces g ! i)" by (simp add: fs nth_append)
        with True have "map_of (faceOf g) a = Some i" by (rule i2)
        moreover from this free have "a \<notin> set hs" by auto
        ultimately show ?thesis by (simp add: fo)
      next
        case False
        with i have "i = length (faces g)" by (simp add: fs)
        with a show ?thesis by (simp add: fs fo)
      qed
    next
      fix F assume "F \<in> set (faces g')"
      then have "F \<in> set (faces g) \<or> F = hs" by (auto simp: fs)
      then have "isCycle g F \<and> 0 < computeFaceArea rd g F \<and> set F \<subseteq> set (halfEdges g)"
        using i3 cyc area sub by blast
      then show "isCycle g' F" "0 < computeFaceArea rd g' F" "set F \<subseteq> set (halfEdges g')"
        by (simp_all add: isCycle_cong[OF nx] computeFaceArea_cong[OF nx ps] he)
    qed
    then show ?thesis by (simp add: g'_def)
  qed
qed

lemma fold_buildFace_facesInv:
  "facesInv rd g \<Longrightarrow> nextClosed g \<Longrightarrow> set hs \<subseteq> set (halfEdges g) \<Longrightarrow> facesInv rd (fold (buildFace rd) hs g)"
proof (induction hs arbitrary: g)
  case Nil
  then show ?case by simp
next
  case (Cons h hs)
  have h: "h \<in> set (halfEdges g)" using Cons.prems(3) by simp
  have 1: "facesInv rd (buildFace rd h g)" using Cons.prems(1,2) h by (rule buildFace_facesInv)
  have 2: "nextClosed (buildFace rd h g)"
    using Cons.prems(2) nextClosed_cong[of "buildFace rd h g" g] by simp
  have 3: "set hs \<subseteq> set (halfEdges (buildFace rd h g))" using Cons.prems(3) by simp
  have "facesInv rd (fold (buildFace rd) hs (buildFace rd h g))" using 1 2 3 by (rule Cons.IH)
  then show ?case by simp
qed


lemma fold_linkStep_next_values:
  assumes "0 < length out"
    and "(a, b) \<in> set (nextOf (fold (linkStep out) ks g))"
  shows "b \<in> set out \<or> (a, b) \<in> set (nextOf g)"
proof -
  from assms(2) have "(a, b) \<in> (\<lambda>i. (twin (out ! i), out ! ((i + length out - 1) mod length out))) ` set ks
      \<or> (a, b) \<in> set (nextOf g)"
    by (simp add: fold_linkStep_nextOf)
  then show ?thesis
  proof
    assume "(a, b) \<in> (\<lambda>i. (twin (out ! i), out ! ((i + length out - 1) mod length out))) ` set ks"
    then obtain i where "b = out ! ((i + length out - 1) mod length out)" by blast
    moreover have "(i + length out - 1) mod length out < length out"
      using assms(1) by simp
    ultimately show ?thesis by simp
  next
    assume "(a, b) \<in> set (nextOf g)"
    then show ?thesis by simp
  qed
qed

lemma linkVertex_next_values:
  assumes "(a, b) \<in> set (nextOf (linkVertex v g))"
  shows "b \<in> set (outgoing g v) \<or> (a, b) \<in> set (nextOf g)"
proof (cases "length (outgoing g v) < 2")
  case True
  then show ?thesis using assms by (simp add: linkVertex_def Let_def)
next
  case False
  then have ne: "0 < length (outgoing g v)" by (cases "outgoing g v") auto
  from False assms have "(a, b) \<in> set (nextOf (fold (linkStep (outgoing g v)) [0 ..< length (outgoing g v)] g))"
    by (simp add: linkVertex_def Let_def)
  with ne show ?thesis by (rule fold_linkStep_next_values)
qed

lemma outgoing_cong: "vedges g' = vedges g \<Longrightarrow> outgoing g' v = outgoing g v"
  by (simp add: outgoing_def)

lemma fold_linkVertex_next_values:
  assumes "(a, b) \<in> set (nextOf (fold linkVertex vs g))"
  shows "(\<exists>v\<in>set vs. b \<in> set (outgoing g v)) \<or> (a, b) \<in> set (nextOf g)"
  using assms
proof (induction vs arbitrary: g)
  case Nil
  then show ?case by simp
next
  case (Cons v vs)
  from Cons.prems have "(a, b) \<in> set (nextOf (fold linkVertex vs (linkVertex v g)))" by simp
  from Cons.IH[OF this]
  have "(\<exists>u\<in>set vs. b \<in> set (outgoing (linkVertex v g) u)) \<or> (a, b) \<in> set (nextOf (linkVertex v g))" .
  then show ?case
  proof
    assume "\<exists>u\<in>set vs. b \<in> set (outgoing (linkVertex v g) u)"
    then show ?thesis by (auto simp: outgoing_cong[of "linkVertex v g" g])
  next
    assume "(a, b) \<in> set (nextOf (linkVertex v g))"
    from linkVertex_next_values[OF this] show ?thesis by auto
  qed
qed

lemma outgoing_halfEdges:
  assumes "preBuild g"
  shows "set (outgoing g v) \<subseteq> set (halfEdges g)"
proof
  fix h assume "h \<in> set (outgoing g v)"
  then obtain e where e: "e \<in> set (vedges g v)"
    and h: "h = (if vertex0 e = v then halfEdgeFromVertex0 e else halfEdgeFromVertex1 e)"
    by (auto simp: outgoing_def)
  from e assms have "e \<in> set (edges g)" by (auto simp: preBuild_def)
  with assms have "halfEdgeFromVertex0 e \<in> set (halfEdges g)" "halfEdgeFromVertex1 e \<in> set (halfEdges g)"
    by (auto simp: preBuild_def)
  with h show "h \<in> set (halfEdges g)" by simp
qed

lemma link_nextClosed:
  assumes "preBuild g"
  shows "nextClosed (linkHalfEdgesAroundVertices g)"
  unfolding nextClosed_def
proof (intro allI impI)
  fix a b assume "map_of (nextOf (linkHalfEdgesAroundVertices g)) a = Some b"
  then have "(a, b) \<in> set (nextOf (fold linkVertex (vertices g) g))"
    unfolding linkHalfEdgesAroundVertices_def by (rule map_of_SomeD)
  from fold_linkVertex_next_values[OF this]
  have "(\<exists>v\<in>set (vertices g). b \<in> set (outgoing g v)) \<or> (a, b) \<in> set (nextOf g)" .
  moreover have "nextOf g = []" using assms by (simp add: preBuild_def)
  ultimately obtain v where "b \<in> set (outgoing g v)" by auto
  then have "b \<in> set (halfEdges g)" using outgoing_halfEdges[OF assms] by blast
  then show "b \<in> set (halfEdges (linkHalfEdgesAroundVertices g))" by simp
qed

lemma buildFaces_facesInv:
  assumes "preBuild g"
  shows "facesInv rd (buildFaces rd g)"
proof -
  define g1 where "g1 = (linkHalfEdgesAroundVertices g)\<lparr>faces := []\<rparr>"
  have "faceOf g1 = []" using assms by (simp add: g1_def preBuild_def)
  then have 1: "facesInv rd g1" by (simp add: facesInv_def g1_def)
  have 2: "nextClosed g1"
    using link_nextClosed[OF assms] by (simp add: nextClosed_def g1_def)
  have 3: "set (halfEdges (linkHalfEdgesAroundVertices g)) \<subseteq> set (halfEdges g1)"
    by (simp add: g1_def)
  from 1 2 3 have "facesInv rd (fold (buildFace rd) (halfEdges (linkHalfEdgesAroundVertices g)) g1)"
    by (rule fold_buildFace_facesInv)
  then show ?thesis by (simp add: buildFaces_def Let_def g1_def)
qed

lemma facesInv_partition:
  assumes "facesInv rd g"
  shows "halfEdgePartition g"
proof -
  from assms have i1: "\<And>a i. map_of (faceOf g) a = Some i \<Longrightarrow> i < length (faces g) \<and> a \<in> set (faces g ! i)"
    and i2: "\<And>i a. i < length (faces g) \<Longrightarrow> a \<in> set (faces g ! i) \<Longrightarrow> map_of (faceOf g) a = Some i"
    and i3: "\<And>F. F \<in> set (faces g) \<Longrightarrow> isCycle g F \<and> 0 < computeFaceArea rd g F \<and> set F \<subseteq> set (halfEdges g)"
    unfolding facesInv_def by blast+
  show ?thesis
    unfolding halfEdgePartition_def
  proof (intro conjI allI impI ballI)
    fix i j assume "i < length (faces g)" "j < length (faces g)" "i \<noteq> j"
    show "set (faces g ! i) \<inter> set (faces g ! j) = {}"
    proof (rule ccontr)
      assume "set (faces g ! i) \<inter> set (faces g ! j) \<noteq> {}"
      then obtain a where ai: "a \<in> set (faces g ! i)" and aj: "a \<in> set (faces g ! j)" by auto
      from i2[OF \<open>i < length (faces g)\<close> ai] i2[OF \<open>j < length (faces g)\<close> aj]
      show False using \<open>i \<noteq> j\<close> by simp
    qed
  next
    fix F assume "F \<in> set (faces g)"
    then show "distinct F" using i3 by (simp add: isCycle_def)
  next
    show "(\<Union>F\<in>set (faces g). set F) \<union> {h \<in> set (halfEdges g). map_of (faceOf g) h = None}
        = set (halfEdges g)"
    proof (intro equalityI subsetI)
      fix a assume "a \<in> (\<Union>F\<in>set (faces g). set F) \<union> {h \<in> set (halfEdges g). map_of (faceOf g) h = None}"
      then show "a \<in> set (halfEdges g)" using i3 by auto
    next
      fix a assume a: "a \<in> set (halfEdges g)"
      show "a \<in> (\<Union>F\<in>set (faces g). set F) \<union> {h \<in> set (halfEdges g). map_of (faceOf g) h = None}"
      proof (cases "map_of (faceOf g) a")
        case None
        with a show ?thesis by simp
      next
        case (Some i)
        from i1[OF Some] have "faces g ! i \<in> set (faces g)" "a \<in> set (faces g ! i)" by auto
        then show ?thesis by blast
      qed
    qed
  next
    show "(\<Union>F\<in>set (faces g). set F) \<inter> {h \<in> set (halfEdges g). map_of (faceOf g) h = None} = {}"
    proof (rule ccontr)
      assume "(\<Union>F\<in>set (faces g). set F) \<inter> {h \<in> set (halfEdges g). map_of (faceOf g) h = None} \<noteq> {}"
      then obtain a F where "F \<in> set (faces g)" "a \<in> set F" "map_of (faceOf g) a = None" by auto
      moreover from this obtain i where "i < length (faces g)" "F = faces g ! i"
        by (auto simp: in_set_conv_nth)
      ultimately show False using i2 by fastforce
    qed
  qed
qed

section \<open>Invariant of edge registration\<close>

lemma registerEdge_vedges:
  "vedges (registerEdge e g) v =
     vedges g v @ (if v = vertex0 e then [e] else []) @ (if v = vertex1 e then [e] else [])"
  by (simp add: registerEdge_def Let_def)

lemma sortEdgesCCW_vedges:
  "vedges (sortEdgesCCW rd v g) u =
     (if u = v then sort_key (edgeAngle rd g v) (vedges g v) else vedges g u)"
  by (simp add: sortEdgesCCW_def)

lemma registerEdge_edgesInv:
  assumes "edgesInv g"
  shows "edgesInv (registerEdge e g)"
  using assms unfolding edgesInv_def
  by (auto simp: registerEdge_vedges)

lemma sortEdgesCCW_edgesInv: "edgesInv g \<Longrightarrow> edgesInv (sortEdgesCCW rd v g)"
  unfolding edgesInv_def by (simp add: sortEdgesCCW_vedges)


lemma loadEdge_edgesInv: "edgesInv g \<Longrightarrow> edgesInv (loadEdge a g)"
  by (simp add: loadEdge_def registerEdge_edgesInv split: prod.splits option.splits)

lemma fold_loadEdge_edgesInv: "edgesInv g \<Longrightarrow> edgesInv (fold loadEdge as g)"
  by (induction as arbitrary: g) (simp_all add: loadEdge_edgesInv)

lemma fold_sortEdgesCCW_edgesInv: "edgesInv g \<Longrightarrow> edgesInv (fold (sortEdgesCCW rd) vs g)"
  by (induction vs arbitrary: g) (simp_all add: sortEdgesCCW_edgesInv)

lemma normalize_edgesInv: "edgesInv g \<Longrightarrow> edgesInv (normalizeVerticesToGraphSpace rd g)"
  by (simp add: edgesInv_def)

lemma preBuild_edgesInv: "preBuild g \<longleftrightarrow> edgesInv g \<and> nextOf g = [] \<and> faceOf g = []"
  by (auto simp: preBuild_def edgesInv_def)

lemma preBuild_loadFromSerialized: "preBuild (loadFromSerialized rd data Graph_init)"
proof -
  have "edgesInv (loadFromSerialized rd data Graph_init)"
    unfolding loadFromSerialized_def Let_def
    by (intro fold_sortEdgesCCW_edgesInv fold_loadEdge_edgesInv normalize_edgesInv)
      (simp add: edgesInv_def Graph_init_def)
  moreover have "nextOf (loadFromSerialized rd data Graph_init) = []"
    "faceOf (loadFromSerialized rd data Graph_init) = []"
    by (simp_all add: loadFromSerialized_def Let_def Graph_init_def)
  ultimately show ?thesis by (simp add: preBuild_edgesInv)
qed


section \<open>Face extraction on a triangle\<close>

lemma preBuild_triangleGraph: "preBuild triangleGraph"
  by (auto simp: preBuild_def triangleGraph_def Graph_init_def)

lemma link_triangleGraph:
  "nextOf (linkHalfEdgesAroundVertices triangleGraph) =
     [(halfEdgeFromVertex0 (GraphEdge 1 1 2), halfEdgeFromVertex0 (GraphEdge 2 2 0)),
      (halfEdgeFromVertex1 (GraphEdge 2 2 0), halfEdgeFromVertex1 (GraphEdge 1 1 2)),
      (halfEdgeFromVertex0 (GraphEdge 0 0 1), halfEdgeFromVertex0 (GraphEdge 1 1 2)),
      (halfEdgeFromVertex1 (GraphEdge 1 1 2), halfEdgeFromVertex1 (GraphEdge 0 0 1)),
      (halfEdgeFromVertex0 (GraphEdge 2 2 0), halfEdgeFromVertex0 (GraphEdge 0 0 1)),
      (halfEdgeFromVertex1 (GraphEdge 0 0 1), halfEdgeFromVertex1 (GraphEdge 2 2 0))]"
  by (simp add: linkHalfEdgesAroundVertices_def linkVertex_def outgoing_def linkStep_def
      triangleGraph_def Graph_init_def twin_def halfEdgeFromVertex0_def halfEdgeFromVertex1_def
      upt_rec Let_def)


lemma link_triangleGraph_fields:
  "faceOf (linkHalfEdgesAroundVertices triangleGraph) = []"
  "halfEdges (linkHalfEdgesAroundVertices triangleGraph) = halfEdges triangleGraph"
  "pos (linkHalfEdgesAroundVertices triangleGraph) = pos triangleGraph"
  by (simp_all add: triangleGraph_def Graph_init_def)

lemma walk_triangle_inner:
  assumes "nextOf g = nextOf (linkHalfEdgesAroundVertices triangleGraph)" "faceOf g = []"
  shows "walk g (halfEdgeFromVertex0 (GraphEdge 0 0 1)) [] (halfEdgeFromVertex0 (GraphEdge 0 0 1))
     = ([halfEdgeFromVertex0 (GraphEdge 0 0 1), halfEdgeFromVertex0 (GraphEdge 1 1 2),
         halfEdgeFromVertex0 (GraphEdge 2 2 0)], True)"
proof -
  note n = assms(1)[unfolded link_triangleGraph]
  show ?thesis
    by (simp add: n assms(2) halfEdgeFromVertex0_def halfEdgeFromVertex1_def)
qed

lemma pos_triangleGraph:
  "pos triangleGraph 0 = Vec2 0 0" "pos triangleGraph (Suc 0) = Vec2 1 0"
  "pos triangleGraph 2 = Vec2 0 1"
  by (simp_all add: triangleGraph_def Graph_init_def)

lemma buildFace_triangle_first:
  assumes "nextOf g = nextOf (linkHalfEdgesAroundVertices triangleGraph)" "faceOf g = []"
    "pos g = pos triangleGraph"
  shows "buildFace id (halfEdgeFromVertex0 (GraphEdge 0 0 1)) g
     = g\<lparr>faces := faces g @ [[halfEdgeFromVertex0 (GraphEdge 0 0 1),
                halfEdgeFromVertex0 (GraphEdge 1 1 2), halfEdgeFromVertex0 (GraphEdge 2 2 0)]],
          faceOf := [(halfEdgeFromVertex0 (GraphEdge 2 2 0), length (faces g)),
                     (halfEdgeFromVertex0 (GraphEdge 1 1 2), length (faces g)),
                     (halfEdgeFromVertex0 (GraphEdge 0 0 1), length (faces g))]\<rparr>"
proof -
  note n = assms(1)[unfolded link_triangleGraph]
  have "computeFaceArea id g [halfEdgeFromVertex0 (GraphEdge 0 0 1),
                halfEdgeFromVertex0 (GraphEdge 1 1 2), halfEdgeFromVertex0 (GraphEdge 2 2 0)] = 1 / 2"
    by (simp add: computeFaceArea_def n assms(3) pos_triangleGraph round_cross_def origin_def
        halfEdgeFromVertex0_def halfEdgeFromVertex1_def)
  then show ?thesis
    unfolding buildFace_def walk_triangle_inner[OF assms(1,2)]
    by (simp add: assms(2))
qed

lemma buildFace_triangle_rest:
  assumes "nextOf g = nextOf (linkHalfEdgesAroundVertices triangleGraph)"
    "faceOf g = [(halfEdgeFromVertex0 (GraphEdge 2 2 0), 0),
                 (halfEdgeFromVertex0 (GraphEdge 1 1 2), 0),
                 (halfEdgeFromVertex0 (GraphEdge 0 0 1), 0)]"
    "pos g = pos triangleGraph"
  shows "buildFace id (halfEdgeFromVertex0 (GraphEdge 1 1 2)) g = g"
    "buildFace id (halfEdgeFromVertex0 (GraphEdge 2 2 0)) g = g"
    "buildFace id (halfEdgeFromVertex1 (GraphEdge 0 0 1)) g = g"
    "buildFace id (halfEdgeFromVertex1 (GraphEdge 1 1 2)) g = g"
    "buildFace id (halfEdgeFromVertex1 (GraphEdge 2 2 0)) g = g"
proof -
  note n = assms(1)[unfolded link_triangleGraph]
  show "buildFace id (halfEdgeFromVertex0 (GraphEdge 1 1 2)) g = g"
    "buildFace id (halfEdgeFromVertex0 (GraphEdge 2 2 0)) g = g"
    "buildFace id (halfEdgeFromVertex1 (GraphEdge 0 0 1)) g = g"
    "buildFace id (halfEdgeFromVertex1 (GraphEdge 1 1 2)) g = g"
    "buildFace id (halfEdgeFromVertex1 (GraphEdge 2 2 0)) g = g"
    by (simp_all add: buildFace_def computeFaceArea_def n assms(2,3) pos_triangleGraph
        round_cross_def origin_def halfEdgeFromVertex0_def halfEdgeFromVertex1_def)
qed

lemma buildFaces_triangleGraph:
  "buildFaces id triangleGraph =
     (linkHalfEdgesAroundVertices triangleGraph)
       \<lparr>faces := [[halfEdgeFromVertex0 (GraphEdge 0 0 1),
                 halfEdgeFromVertex0 (GraphEdge 1 1 2), halfEdgeFromVertex0 (GraphEdge 2 2 0)]],
        faceOf := [(halfEdgeFromVertex0 (GraphEdge 2 2 0), 0),
                   (halfEdgeFromVertex0 (GraphEdge 1 1 2), 0),
                   (halfEdgeFromVertex0 (GraphEdge 0 0 1), 0)]\<rparr>"
proof -
  define g1 where "g1 = (linkHalfEdgesAroundVertices triangleGraph)\<lparr>faces := []\<rparr>"
  define g2 where "g2 = (linkHalfEdgesAroundVertices triangleGraph)
       \<lparr>faces := [[halfEdgeFromVertex0 (GraphEdge 0 0 1),
                 halfEdgeFromVertex0 (GraphEdge 1 1 2), halfEdgeFromVertex0 (GraphEdge 2 2 0)]],
        faceOf := [(halfEdgeFromVertex0 (GraphEdge 2 2 0), 0),
                   (halfEdgeFromVertex0 (GraphEdge 1 1 2), 0),
                   (halfEdgeFromVertex0 (GraphEdge 0 0 1), 0)]\<rparr>"
  have h: "halfEdges (linkHalfEdgesAroundVertices triangleGraph) =
     [halfEdgeFromVertex0 (GraphEdge 0 0 1), halfEdgeFromVertex1 (GraphEdge 0 0 1),
      halfEdgeFromVertex0 (GraphEdge 1 1 2), halfEdgeFromVertex1 (GraphEdge 1 1 2),
      halfEdgeFromVertex0 (GraphEdge 2 2 0), halfEdgeFromVertex1 (GraphEdge 2 2 0)]"
    by (simp add: triangleGraph_def Graph_init_def)
  have "buildFace id (halfEdgeFromVertex0 (GraphEdge 0 0 1)) g1 =
      g1\<lparr>faces := faces g1 @ [[halfEdgeFromVertex0 (GraphEdge 0 0 1),
                halfEdgeFromVertex0 (GraphEdge 1 1 2), halfEdgeFromVertex0 (GraphEdge 2 2 0)]],
          faceOf := [(halfEdgeFromVertex0 (GraphEdge 2 2 0), length (faces g1)),
                     (halfEdgeFromVertex0 (GraphEdge 1 1 2), length (faces g1)),
                     (halfEdgeFromVertex0 (GraphEdge 0 0 1), length (faces g1))]\<rparr>"
    by (rule buildFace_triangle_first) (simp_all add: g1_def triangleGraph_def Graph_init_def)
  then have 1: "buildFace id (halfEdgeFromVertex0 (GraphEdge 0 0 1)) g1 = g2"
    by (simp add: g1_def g2_def)
  have a: "nextOf g2 = nextOf (linkHalfEdgesAroundVertices triangleGraph)"
    "faceOf g2 = [(halfEdgeFromVertex0 (GraphEdge 2 2 0), 0),
                 (halfEdgeFromVertex0 (GraphEdge 1 1 2), 0),
                 (halfEdgeFromVertex0 (GraphEdge 0 0 1), 0)]"
    "pos g2 = pos triangleGraph"
    by (simp_all add: g2_def)
  note r = buildFace_triangle_rest[OF a]
  have "fold (buildFace id) (halfEdges (linkHalfEdgesAroundVertices triangleGraph)) g1 = g2"
    unfolding h by (simp only: fold_simps o_apply 1 r)
  then show ?thesis
    unfolding buildFaces_def Let_def g1_def g2_def .
qed


section \<open>Shell layers\<close>

lemma distinct_fold_frontierStep:
  "distinct nf \<Longrightarrow> distinct (fold (frontierStep visited) ns nf)"
  by (induction ns arbitrary: nf) (auto simp: frontierStep_def)

lemma distinct_fold_nextFrontier:
  "distinct nf \<Longrightarrow>
   distinct (fold (\<lambda>face nf. fold (frontierStep visited) (neighboringFaces g face) nf) fs nf)"
  by (induction fs arbitrary: nf) (simp_all add: distinct_fold_frontierStep)

lemma distinct_nextFrontier: "distinct (nextFrontier g visited frontier)"
  by (simp add: nextFrontier_def distinct_fold_nextFrontier)

lemma layersFrom_step:
  assumes F: "F \<noteq> []" "distinct F" "set F \<inter> set V = {}"
    and F': "set F' = (\<Union>x\<in>set F. set (neighboringFaces g x)) - set (V @ F)"
    and L': "layersFrom g (V @ F) F' L'"
  shows "layersFrom g V F (F # L')"
proof -
  from L' have e: "F' = [] \<longrightarrow> L' = []" and h: "F' \<noteq> [] \<longrightarrow> L' \<noteq> [] \<and> L' ! 0 = F'"
    and ne: "[] \<notin> set L'" and d: "distinct (concat L')"
    and dj: "set (concat L') \<inter> set (V @ F) = {}"
    and st: "\<And>k. Suc k < length L' \<Longrightarrow> set (L' ! Suc k) =
          (\<Union>x\<in>set (L' ! k). set (neighboringFaces g x))
            - (set (V @ F) \<union> (\<Union>l\<in>set (take (Suc k) L'). set l))"
    and la: "L' \<noteq> [] \<longrightarrow>
        (\<Union>x\<in>set (last L'). set (neighboringFaces g x)) - (set (V @ F) \<union> (\<Union>l\<in>set L'. set l)) = {}"
    unfolding layersFrom_def by blast+
  have 1: "[] \<notin> set (F # L')" using F(1) ne by auto
  have 2: "distinct (concat (F # L'))" using F(2) d dj by auto
  have 3: "set (concat (F # L')) \<inter> set V = {}" using F(3) dj by auto
  have 4: "set ((F # L') ! Suc k) =
          (\<Union>x\<in>set ((F # L') ! k). set (neighboringFaces g x))
            - (set V \<union> (\<Union>l\<in>set (take (Suc k) (F # L')). set l))"
    if k: "Suc k < length (F # L')" for k
  proof (cases k)
    case 0
    with k have "L' \<noteq> []" by auto
    with e h have "L' ! 0 = F'" by blast
    then show ?thesis using 0 F' by auto
  next
    case (Suc j)
    with k have "Suc j < length L'" by simp
    from st[OF this] show ?thesis using Suc by (simp add: Un_assoc)
  qed
  have 5: "(\<Union>x\<in>set (last (F # L')). set (neighboringFaces g x))
            - (set V \<union> (\<Union>l\<in>set (F # L'). set l)) = {}"
  proof (cases "L' = []")
    case True
    with h have "F' = []" by blast
    with F' True show ?thesis by auto
  next
    case False
    with la show ?thesis by (simp add: Un_assoc)
  qed
  show ?thesis
    unfolding layersFrom_def using F(1) 1 2 3 4 5 by auto
qed

lemma shellLoop_layers:
  "distinct F \<Longrightarrow> set F \<inter> set V = {} \<Longrightarrow> layersFrom g V F (shellLoop g V F)"
proof (induction g V F rule: shellLoop.induct)
  case (1 g V F)
  show ?case
  proof (cases "F = []")
    case True
    then show ?thesis by (simp add: layersFrom_def)
  next
    case False
    define F' where "F' = nextFrontier g (V @ F) F"
    have s: "set F' = (\<Union>x\<in>set F. set (neighboringFaces g x)) - set (V @ F)"
      by (simp add: F'_def set_nextFrontier)
    have "layersFrom g (V @ F) F' (shellLoop g (V @ F) F')"
      unfolding F'_def
    proof (rule "1.IH"[OF False])
      show "distinct (nextFrontier g (V @ F) F)" by (rule distinct_nextFrontier)
      show "set (nextFrontier g (V @ F) F) \<inter> set (V @ F) = {}"
        by (auto simp: set_nextFrontier)
    qed
    with False "1.prems" s have "layersFrom g V F (F # shellLoop g (V @ F) F')"
      by (intro layersFrom_step) auto
    moreover have "shellLoop g V F = F # shellLoop g (V @ F) F'"
      using False by (subst shellLoop.simps) (simp add: F'_def)
    ultimately show ?thesis by simp
  qed
qed


lemma set_fold_neighborStep_eq:
  "set (fold (neighborStep g f) hs ns) =
     set ns \<union> {n. n \<noteq> f \<and> (\<exists>h\<in>set hs. map_of (faceOf g) h = Some f \<and> map_of (faceOf g) (twin h) = Some n)}"
proof (induction hs arbitrary: ns)
  case Nil
  show ?case by simp
next
  case (Cons h hs)
  have "set (neighborStep g f h ns) =
     set ns \<union> {n. n \<noteq> f \<and> map_of (faceOf g) h = Some f \<and> map_of (faceOf g) (twin h) = Some n}"
    by (auto simp: neighborStep_def split: option.splits)
  then show ?case by (auto simp: Cons.IH)
qed

lemma neighboringFaces_twins:
  assumes "faceFieldsAgree g" "f < length (faces g)"
  shows "set (neighboringFaces g f) = neighborsViaTwins g f"
proof -
  have "map_of (faceOf g) h = Some f" if "h \<in> set (faces g ! f)" for h
    using assms that unfolding faceFieldsAgree_def by blast
  then show ?thesis
    unfolding neighboringFaces_def neighborsViaTwins_def set_fold_neighborStep_eq by auto
qed

lemma neighboringFaces_valid:
  assumes "faceFieldsAgree g" "n \<in> set (neighboringFaces g f)"
  shows "n < length (faces g)"
proof -
  from assms(2) obtain h where "map_of (faceOf g) (twin h) = Some n"
    unfolding neighboringFaces_def set_fold_neighborStep_eq by auto
  with assms(1) show ?thesis unfolding faceFieldsAgree_def by blast
qed

lemma layersFrom_valid:
  assumes a: "faceFieldsAgree g" and L: "layersFrom g V F L"
    and F: "\<And>x. x \<in> set F \<Longrightarrow> x < length (faces g)"
  shows "k < length L \<Longrightarrow> x \<in> set (L ! k) \<Longrightarrow> x < length (faces g)"
proof (induction k arbitrary: x)
  case 0
  then have "L \<noteq> []" by auto
  with L have "L ! 0 = F" unfolding layersFrom_def by auto
  with 0 F show ?case by simp
next
  case (Suc k)
  from L Suc.prems(1) have "set (L ! Suc k) \<subseteq> (\<Union>x\<in>set (L ! k). set (neighboringFaces g x))"
    unfolding layersFrom_def by blast
  with Suc.prems(2) obtain y where "x \<in> set (neighboringFaces g y)" by blast
  with a show ?case by (rule neighboringFaces_valid)
qed

text \<open>
  Claim C7. In a graph whose \<^verbatim>\<open>face\<close> fields agree with the faces' lists (as face
  extraction leaves them), the layers returned by \<^verbatim>\<open>shellLayers\<close> for a face \<open>f\<close>
  start with the layer \<open>[f]\<close>; no layer is empty and no face occurs twice, in one
  layer or in two; layer \<open>k + 1\<close> consists exactly of the faces that are adjacent
  through a twin half-edge to a face of layer \<open>k\<close> and are in none of the layers
  \<open>0 .. k\<close>; and every face adjacent to a face of the last layer is in some layer, so
  the loop stops exactly when the next layer would be empty. The function is
  total: the loop ends for every graph.
\<close>

theorem shellLayers_breadth_first:
  assumes a: "faceFieldsAgree g" and f: "f < length (faces g)"
  shows "shellLayers g f \<noteq> [] \<and> shellLayers g f ! 0 = [f] \<and>
     [] \<notin> set (shellLayers g f) \<and> distinct (concat (shellLayers g f)) \<and>
     (\<forall>k. Suc k < length (shellLayers g f) \<longrightarrow>
        set (shellLayers g f ! Suc k) =
          (\<Union>x\<in>set (shellLayers g f ! k). neighborsViaTwins g x)
            - (\<Union>l\<in>set (take (Suc k) (shellLayers g f)). set l)) \<and>
     (\<Union>x\<in>set (last (shellLayers g f)). neighborsViaTwins g x)
        \<subseteq> (\<Union>l\<in>set (shellLayers g f). set l)"
proof -
  define L where "L = shellLayers g f"
  have L: "layersFrom g [] [f] L"
    unfolding L_def shellLayers_def by (rule shellLoop_layers) simp_all
  have v: "x < length (faces g)" if "k < length L" "x \<in> set (L ! k)" for k x
    using a L _ that by (rule layersFrom_valid) (simp add: f)
  have n: "(\<Union>x\<in>set (L ! k). set (neighboringFaces g x)) = (\<Union>x\<in>set (L ! k). neighborsViaTwins g x)"
    if "k < length L" for k
    using neighboringFaces_twins[OF a v[OF that]] by auto
  from L have 1: "L \<noteq> []" and 2: "L ! 0 = [f]" and 3: "[] \<notin> set L" and 4: "distinct (concat L)"
    unfolding layersFrom_def by auto
  have 5: "set (L ! Suc k) = (\<Union>x\<in>set (L ! k). neighborsViaTwins g x) - (\<Union>l\<in>set (take (Suc k) L). set l)"
    if k: "Suc k < length L" for k
  proof -
    from L k have "set (L ! Suc k) = (\<Union>x\<in>set (L ! k). set (neighboringFaces g x))
         - (set [] \<union> (\<Union>l\<in>set (take (Suc k) L). set l))"
      unfolding layersFrom_def by blast
    with n[of k] k show ?thesis by simp
  qed
  have 6: "(\<Union>x\<in>set (last L). neighborsViaTwins g x) \<subseteq> (\<Union>l\<in>set L. set l)"
  proof -
    from L 1 have "(\<Union>x\<in>set (last L). set (neighboringFaces g x))
        - (set [] \<union> (\<Union>l\<in>set L. set l)) = {}"
      unfolding layersFrom_def by blast
    moreover have "last L = L ! (length L - 1)" using 1 by (rule last_conv_nth)
    ultimately show ?thesis using n[of "length L - 1"] 1 by auto
  qed
  from 1 2 3 4 5 6 show ?thesis unfolding L_def by blast
qed

lemma faceFieldsAgree_triangleStrip: "faceFieldsAgree triangleStrip"
  unfolding faceFieldsAgree_def
proof (intro conjI allI impI)
  fix h i assume "map_of (faceOf triangleStrip) h = Some i"
  then show "i < length (faces triangleStrip)"
    by (auto simp: triangleStrip_def Graph_init_def split: if_splits)
next
  fix h i assume "map_of (faceOf triangleStrip) h = Some i"
  then show "h \<in> set (faces triangleStrip ! i)"
    by (auto simp: triangleStrip_def Graph_init_def split: if_splits)
next
  fix i assume "i < length (faces triangleStrip)"
  then have i: "i = 0 \<or> i = 1 \<or> i = 2" by (auto simp: triangleStrip_def)
  have "\<forall>h\<in>set (faces triangleStrip ! 0). map_of (faceOf triangleStrip) h = Some 0"
    "\<forall>h\<in>set (faces triangleStrip ! 1). map_of (faceOf triangleStrip) h = Some 1"
    "\<forall>h\<in>set (faces triangleStrip ! 2). map_of (faceOf triangleStrip) h = Some 2"
    by (simp_all add: triangleStrip_def Graph_init_def halfEdgeFromVertex0_def
        halfEdgeFromVertex1_def)
  with i show "\<forall>h\<in>set (faces triangleStrip ! i). map_of (faceOf triangleStrip) h = Some i"
    by blast
qed

lemma neighboringFaces_triangleStrip:
  "neighboringFaces triangleStrip 0 = [1]"
  "neighboringFaces triangleStrip (Suc 0) = [0, 2]"
  "neighboringFaces triangleStrip 2 = [1]"
  by (simp_all add: neighboringFaces_def neighborStep_def triangleStrip_def Graph_init_def
      halfEdgeFromVertex0_def halfEdgeFromVertex1_def twin_def)

lemma shellLayers_triangleStrip: "shellLayers triangleStrip 0 = [[0], [1], [2]]"
  by (simp add: shellLayers_def nextFrontier_def frontierStep_def
      neighboringFaces_triangleStrip)

text \<open>In the strip of three triangles the layers from face 0 are \<open>[0]\<close>, \<open>[1]\<close>, \<open>[2]\<close>.\<close>

theorem shellLayers_triangleStrip_witness:
  "faceFieldsAgree triangleStrip \<and> 0 < length (faces triangleStrip) \<and>
   shellLayers triangleStrip 0 = [[0], [1], [2]] \<and>
   neighborsViaTwins triangleStrip 0 = {1} \<and>
   neighborsViaTwins triangleStrip 1 = {0, 2} \<and>
   neighborsViaTwins triangleStrip 2 = {1}"
proof -
  have l: "0 < length (faces triangleStrip)" "1 < length (faces triangleStrip)"
    "2 < length (faces triangleStrip)"
    by (simp_all add: triangleStrip_def)
  note t = neighboringFaces_twins[OF faceFieldsAgree_triangleStrip]
  have n1: "neighboringFaces triangleStrip 1 = [0, 2]"
    by (simp add: neighboringFaces_triangleStrip)
  from shellLayers_breadth_first[OF faceFieldsAgree_triangleStrip l(1)]
    faceFieldsAgree_triangleStrip l(1) shellLayers_triangleStrip
    t[OF l(1), symmetric] t[OF l(2), symmetric] t[OF l(3), symmetric]
  show ?thesis by (simp add: neighboringFaces_triangleStrip n1 insert_commute)
qed


section \<open>The half-edge partition\<close>

lemma fromSerialized_facesInv: "facesInv rd (fromSerialized rd data)"
  unfolding fromSerialized_def by (rule buildFaces_facesInv) (rule preBuild_loadFromSerialized)

lemma fromSerialized_partition: "halfEdgePartition (fromSerialized rd data)"
  using fromSerialized_facesInv by (rule facesInv_partition)

lemma facesInv_faceFieldsAgree: "facesInv rd g \<Longrightarrow> faceFieldsAgree g"
  unfolding facesInv_def faceFieldsAgree_def by blast

lemma fromSerialized_faceFieldsAgree: "faceFieldsAgree (fromSerialized rd data)"
  using fromSerialized_facesInv by (rule facesInv_faceFieldsAgree)

text \<open>
  Claim C4. In the state the constructor hands to \<^verbatim>\<open>buildFaces\<close> (the edge lists
  of the vertices and the half-edge list are those kept by \<^verbatim>\<open>registerEdge\<close>, and no
  \<^verbatim>\<open>next\<close> or \<^verbatim>\<open>face\<close> field is set; deserialization establishes this for every
  input), face extraction leaves a partition: no half-edge is in the lists of two
  faces or twice in one list, and the half-edges in the lists of the faces
  together with the half-edges of the graph that carry no face are exactly the
  half-edges of the graph, the two collections being disjoint. This holds for
  every rounding of the area computation.
\<close>

theorem buildFaces_halfEdge_partition:
  assumes "preBuild g"
  shows "halfEdgePartition (buildFaces rd g)"
proof -
  from assms have "facesInv rd (buildFaces rd g)" by (rule buildFaces_facesInv)
  then show ?thesis by (rule facesInv_partition)
qed

text \<open>For the triangle, face extraction accepts the counter-clockwise cycle and
  leaves the three half-edges of the clockwise cycle without a face.\<close>

theorem buildFaces_triangle_partition:
  "preBuild triangleGraph \<and> halfEdgePartition (buildFaces id triangleGraph) \<and>
   faces (buildFaces id triangleGraph) =
     [[halfEdgeFromVertex0 (GraphEdge 0 0 1), halfEdgeFromVertex0 (GraphEdge 1 1 2),
       halfEdgeFromVertex0 (GraphEdge 2 2 0)]] \<and>
   {h \<in> set (halfEdges (buildFaces id triangleGraph)).
      map_of (faceOf (buildFaces id triangleGraph)) h = None} =
     {halfEdgeFromVertex1 (GraphEdge 0 0 1), halfEdgeFromVertex1 (GraphEdge 1 1 2),
      halfEdgeFromVertex1 (GraphEdge 2 2 0)}"
proof -
  have "{h \<in> set (halfEdges (buildFaces id triangleGraph)).
      map_of (faceOf (buildFaces id triangleGraph)) h = None} =
     {halfEdgeFromVertex1 (GraphEdge 0 0 1), halfEdgeFromVertex1 (GraphEdge 1 1 2),
      halfEdgeFromVertex1 (GraphEdge 2 2 0)}"
    unfolding buildFaces_triangleGraph
    by (auto simp: triangleGraph_def Graph_init_def halfEdgeFromVertex0_def halfEdgeFromVertex1_def)
  with preBuild_triangleGraph buildFaces_halfEdge_partition[OF preBuild_triangleGraph, of id]
  show ?thesis by (simp add: buildFaces_triangleGraph)
qed


section \<open>Positive area of the faces\<close>







lemma shoelaceArea_exact:
  "shoelaceArea id ps =
     (\<Sum>k<length ps. x_of (ps ! k) * y_of (ps ! ((k + 1) mod length ps))
                     - y_of (ps ! k) * x_of (ps ! ((k + 1) mod length ps))) / 2"
proof -
  have "fold (\<lambda>k area. area + f k) [0 ..< n] a = a + (\<Sum>k<n. f k)" for f :: "nat \<Rightarrow> real" and n a
    by (induction n arbitrary: a) simp_all
  from this[of _ "length ps" 0] show ?thesis
    by (simp add: shoelaceArea_def)
qed





section \<open>The segment intersection test in binary64\<close>

lemma floor_log2_eq:
  fixes a :: real and e :: int
  assumes "2 powi e \<le> a" "a < 2 powi (e + 1)"
  shows "\<lfloor>log 2 a\<rfloor> = e"
proof -
  have "(0::real) < 2 powi e" by simp
  with assms(1) have p: "0 < a" by linarith
  have "real_of_int e \<le> log 2 a"
    using assms(1) p by (simp add: le_log_iff powr_real_of_int')
  moreover have "(2::real) powr real_of_int (e + 1) = 2 powi (e + 1)"
    by (rule powr_real_of_int') simp_all
  then have "a < 2 powr real_of_int (e + 1)" using assms(2) by simp
  then have "log 2 a < real_of_int (e + 1)"
    using p log_less_iff[of 2 a "real_of_int (e + 1)"] by simp
  ultimately show ?thesis by linarith
qed

lemma binary64_eval:
  assumes "2 powi e \<le> \<bar>a\<bar>" "\<bar>a\<bar> < 2 powi (e + 1)" "- 1022 \<le> e"
  shows "binary64 a = of_int (roundTiesToEven (a / 2 powi (e - 52))) * 2 powi (e - 52)"
proof -
  have "(0::real) < 2 powi e" by simp
  with assms(1) have "0 < \<bar>a\<bar>" by linarith
  then have "a \<noteq> 0" by simp
  moreover have "\<lfloor>log 2 \<bar>a\<bar>\<rfloor> = e" using assms(1,2) by (rule floor_log2_eq)
  ultimately show ?thesis using assms(3) by (simp add: binary64_def Let_def max_def)
qed

lemma binary64_scaled:
  assumes "2 ^ 52 \<le> \<bar>m\<bar>" "\<bar>m\<bar> < 2 ^ 53" "- 1074 \<le> k"
  shows "binary64 (m * 2 powi k) = of_int (roundTiesToEven m) * 2 powi k"
proof -
  have "2 powi (k + 52) = 2 ^ 52 * (2::real) powi k"
    by (simp add: power_int_add)
  then have 1: "2 powi (k + 52) \<le> \<bar>m * 2 powi k\<bar>"
    using assms(1) by (simp add: abs_mult)
  have "2 powi (k + 52 + 1) = 2 ^ 53 * (2::real) powi k"
    by (simp add: power_int_add)
  then have 2: "\<bar>m * 2 powi k\<bar> < 2 powi (k + 52 + 1)"
    using assms(2) by (simp add: abs_mult)
  from binary64_eval[OF 1 2] assms(3) show ?thesis by simp
qed

lemma roundTiesToEven_of_int: "roundTiesToEven (of_int m) = m"
  by (simp add: roundTiesToEven_def)

lemma binary64_exact:
  assumes "2 ^ 52 \<le> \<bar>m\<bar>" "\<bar>m\<bar> < 2 ^ 53" "- 1074 \<le> k"
  shows "binary64 (of_int m * 2 powi k) = of_int m * 2 powi k"
  using binary64_scaled[of "of_int m" k] assms
  by (simp add: roundTiesToEven_of_int flip: of_int_abs)


lemma binary64_at:
  assumes "a = m * 2 powi k" "2 ^ 52 \<le> \<bar>m\<bar>" "\<bar>m\<bar> < 2 ^ 53" "- 1074 \<le> k"
    "roundTiesToEven m = n" "b = of_int n * 2 powi k"
  shows "binary64 a = b"
  using binary64_scaled[OF assms(2,3,4)] assms(1,5,6) by simp

lemma binary64_zero: "binary64 0 = 0"
  by (simp add: binary64_def)

lemma cx_rx: "binary64 (1 - 1 / 4) = 3 / 4"
  by (rule binary64_at[where m = "6755399441055744" and k = "- 53" and n = "6755399441055744"])
    (simp_all add: roundTiesToEven_def power_int_minus)

lemma cx_ry: "binary64 (3 / 4 - 3 / 16) = 9 / 16"
  by (rule binary64_at[where m = "5066549580791808" and k = "- 53" and n = "5066549580791808"])
    (simp_all add: roundTiesToEven_def power_int_minus)

lemma cx_sx: "binary64 (1 / 2 ^ 53 - 1 / 2) = - 4503599627370495 / 9007199254740992"
  by (rule binary64_at[where m = "- 9007199254740990" and k = "- 54" and n = "- 9007199254740990"])
    (simp_all add: roundTiesToEven_def power_int_minus)

lemma cx_sy: "binary64 (3 / 2 ^ 55 - 3 / 8) = - 3377699720527871 / 9007199254740992"
  by (rule binary64_at[where m = "- 13510798882111485 / 2" and k = "- 54" and n = "- 6755399441055742"])
    (simp_all add: roundTiesToEven_def power_int_minus)

lemma cx_qx: "binary64 (1 / 2 - 1 / 4) = 1 / 4"
  by (rule binary64_at[where m = "4503599627370496" and k = "- 54" and n = "4503599627370496"])
    (simp_all add: roundTiesToEven_def power_int_minus)

lemma cx_qy: "binary64 (3 / 8 - 3 / 16) = 3 / 16"
  by (rule binary64_at[where m = "6755399441055744" and k = "- 55" and n = "6755399441055744"])
    (simp_all add: roundTiesToEven_def power_int_minus)

lemma cx_p1: "binary64 ((3 / 4) * (- 3377699720527871 / 9007199254740992)) = - 2533274790395903 / 9007199254740992"
  by (rule binary64_at[where m = "- 10133099161583613 / 2" and k = "- 54" and n = "- 5066549580791806"])
    (simp_all add: roundTiesToEven_def power_int_minus)

lemma cx_p2: "binary64 ((9 / 16) * (- 4503599627370495 / 9007199254740992)) = - 5066549580791807 / 18014398509481984"
  by (rule binary64_at[where m = "- 40532396646334455 / 8" and k = "- 54" and n = "- 5066549580791807"])
    (simp_all add: roundTiesToEven_def power_int_minus)

lemma cx_d: "binary64 ((- 2533274790395903 / 9007199254740992) - (- 5066549580791807 / 18014398509481984)) = 1 / 18014398509481984"
  by (rule binary64_at[where m = "4503599627370496" and k = "- 106" and n = "4503599627370496"])
    (simp_all add: roundTiesToEven_def power_int_minus)

lemma cx_p3: "binary64 ((1 / 4) * (- 3377699720527871 / 9007199254740992)) = - 3377699720527871 / 36028797018963968"
  by (rule binary64_at[where m = "- 6755399441055742" and k = "- 56" and n = "- 6755399441055742"])
    (simp_all add: roundTiesToEven_def power_int_minus)

lemma cx_p4: "binary64 ((3 / 16) * (- 4503599627370495 / 9007199254740992)) = - 3377699720527871 / 36028797018963968"
  by (rule binary64_at[where m = "- 13510798882111485 / 2" and k = "- 56" and n = "- 6755399441055742"])
    (simp_all add: roundTiesToEven_def power_int_minus)

lemma cx_na: "binary64 ((- 3377699720527871 / 36028797018963968) - (- 3377699720527871 / 36028797018963968)) = 0"
  by (simp add: binary64_zero)

lemma cx_p5: "binary64 ((1 / 4) * (9 / 16)) = 9 / 64"
  by (rule binary64_at[where m = "5066549580791808" and k = "- 55" and n = "5066549580791808"])
    (simp_all add: roundTiesToEven_def power_int_minus)

lemma cx_p6: "binary64 ((3 / 16) * (3 / 4)) = 9 / 64"
  by (rule binary64_at[where m = "5066549580791808" and k = "- 55" and n = "5066549580791808"])
    (simp_all add: roundTiesToEven_def power_int_minus)

lemma cx_nb: "binary64 ((9 / 64) - (9 / 64)) = 0"
  by (simp add: binary64_zero)

lemma cx_t: "binary64 (0 / (1 / 18014398509481984)) = 0"
  by (simp add: binary64_zero)

text \<open>The segments from \<open>(1/4, 3/16)\<close> to \<open>(1, 3/4)\<close> and from \<open>(1/2, 3/8)\<close> to
  \<open>(2 powi -53, 3 * 2 powi -55)\<close> lie on one line and overlap. In binary64 the
  difference \<open>3 * 2 powi -55 - 3/8\<close> and three of the products are rounded, the
  computed denominator is \<open>2 powi -54\<close>, both numerators are \<open>0\<close>, and the test
  returns true.\<close>

theorem lineSegmentIntersect_collinear_overlap_binary64:
  "collinear_or_parallel (Vec2 (1 / 4) (3 / 16)) (Vec2 1 (3 / 4)) (Vec2 (1 / 2) (3 / 8))
     (Vec2 (1 / 2 ^ 53) (3 / 2 ^ 55)) \<and>
   onSegment (Vec2 (1 / 2) (3 / 8)) (Vec2 (1 / 4) (3 / 16)) (Vec2 1 (3 / 4)) \<and>
   lineSegmentIntersect binary64 (Vec2 (1 / 4) (3 / 16)) (Vec2 1 (3 / 4)) (Vec2 (1 / 2) (3 / 8))
     (Vec2 (1 / 2 ^ 53) (3 / 2 ^ 55))"
proof -
  have "vec2_sub (Vec2 (1 / 2 ^ 53) (3 / 2 ^ 55)) (Vec2 (1 / 2) (3 / 8))
      = vec2_scale (vec2_sub (Vec2 1 (3 / 4)) (Vec2 (1 / 4) (3 / 16))) ((1 / 2 ^ 53 - 1 / 2) / (3 / 4))"
    by (simp add: vec2_sub_def vec2_scale_def)
  then have 1: "collinear_or_parallel (Vec2 (1 / 4) (3 / 16)) (Vec2 1 (3 / 4)) (Vec2 (1 / 2) (3 / 8))
     (Vec2 (1 / 2 ^ 53) (3 / 2 ^ 55))"
    unfolding collinear_or_parallel_def by blast
  have "(0::real) \<le> 1 / 3 \<and> (1::real) / 3 \<le> 1 \<and> Vec2 (1 / 2) (3 / 8)
      = vec2_add (Vec2 (1 / 4) (3 / 16)) (vec2_scale (vec2_sub (Vec2 1 (3 / 4)) (Vec2 (1 / 4) (3 / 16))) (1 / 3))"
    by (simp add: vec2_sub_def vec2_scale_def vec2_add_def)
  then have 2: "onSegment (Vec2 (1 / 2) (3 / 8)) (Vec2 (1 / 4) (3 / 16)) (Vec2 1 (3 / 4))"
    unfolding onSegment_def by blast
  have 3: "lineSegmentIntersect binary64 (Vec2 (1 / 4) (3 / 16)) (Vec2 1 (3 / 4)) (Vec2 (1 / 2) (3 / 8))
     (Vec2 (1 / 2 ^ 53) (3 / 2 ^ 55))"
    unfolding lineSegmentIntersect_def round_vec2_def vec2_sub_def round_cross_def js_quotient_def
      Let_def vec2.sel cx_rx cx_ry cx_sx cx_sy cx_qx cx_qy cx_p1 cx_p2 cx_d cx_p3 cx_p4 cx_na cx_p5 cx_p6 cx_nb cx_t
    by simp
  from 1 2 3 show ?thesis by blast
qed


lemma cross_scale_right: "vec2_cross r (vec2_scale r k) = 0"
  by (simp add: vec2_cross_def vec2_scale_def algebra_simps)

lemma cross_scale_left: "vec2_cross (vec2_scale s k) s = 0"
  by (simp add: vec2_cross_def vec2_scale_def algebra_simps)

lemma parallel_cross_zero:
  assumes "collinear_or_parallel a0 a1 b0 b1"
  shows "vec2_cross (vec2_sub a1 a0) (vec2_sub b1 b0) = 0"
proof -
  from assms obtain k where
    "vec2_sub b1 b0 = vec2_scale (vec2_sub a1 a0) k \<or>
     vec2_sub a1 a0 = vec2_scale (vec2_sub b1 b0) k"
    unfolding collinear_or_parallel_def by blast
  then show ?thesis
  proof
    assume "vec2_sub b1 b0 = vec2_scale (vec2_sub a1 a0) k"
    then show ?thesis by (simp add: cross_scale_right)
  next
    assume "vec2_sub a1 a0 = vec2_scale (vec2_sub b1 b0) k"
    then show ?thesis by (simp add: cross_scale_left)
  qed
qed

lemma lineSegmentIntersect_exact_parallel:
  assumes "collinear_or_parallel a0 a1 b0 b1"
  shows "\<not> lineSegmentIntersect id a0 a1 b0 b1"
proof -
  have "round_cross id (round_vec2 id (vec2_sub a1 a0)) (round_vec2 id (vec2_sub b1 b0))
      = vec2_cross (vec2_sub a1 a0) (vec2_sub b1 b0)"
    by (simp add: round_cross_def round_vec2_def vec2_cross_def)
  with parallel_cross_zero[OF assms] show ?thesis
    by (simp add: lineSegmentIntersect_def Let_def js_quotient_def)
qed

text \<open>
  Claim C8, as the code has it. For coordinates of magnitude at most \<open>2 ^ 500\<close>
  (no overflow in a difference or a product), \<^verbatim>\<open>lineSegmentIntersect\<close> returns true
  exactly when the denominator as computed (every difference and product rounded)
  is not zero and the two computed quotients \<open>ta\<close> and \<open>tb\<close> lie in the closed
  interval from 0 to 1; a computed denominator of zero makes both quotients
  non-finite and the result false. With exact arithmetic the denominator of
  parallel or collinear segments is zero (lemma
  \<open>lineSegmentIntersect_exact_parallel\<close>); with binary64 rounding it need not be.
\<close>

theorem lineSegmentIntersect_computed_parameters:
  assumes "boundedCoordinates a0" "boundedCoordinates a1"
    "boundedCoordinates b0" "boundedCoordinates b1"
  shows "lineSegmentIntersect rd a0 a1 b0 b1 \<longleftrightarrow>
     (let rx = rd (x_of a1 - x_of a0); ry = rd (y_of a1 - y_of a0);
          sx = rd (x_of b1 - x_of b0); sy = rd (y_of b1 - y_of b0);
          qx = rd (x_of b0 - x_of a0); qy = rd (y_of b0 - y_of a0);
          denominator = rd (rd (rx * sy) - rd (ry * sx));
          ta = rd (rd (rd (qx * sy) - rd (qy * sx)) / denominator);
          tb = rd (rd (rd (qx * ry) - rd (qy * rx)) / denominator)
      in denominator \<noteq> 0 \<and> 0 \<le> ta \<and> ta \<le> 1 \<and> 0 \<le> tb \<and> tb \<le> 1)"
proof -
  have "(1::real) < 2 ^ 1024" by simp
  then have b: "\<bar>t\<bar> < 2 ^ 1024" if "0 \<le> t" "t \<le> 1" for t :: real
    using that by linarith
  show ?thesis
    unfolding lineSegmentIntersect_def Let_def js_quotient_def round_vec2_def round_cross_def
      vec2_sub_def vec2.sel
    using b by (auto simp: not_less)
qed

lemma binary64_small:
  "binary64 1 = 1" "binary64 (- 1) = - 1" "binary64 (- 2) = - 2" "binary64 (1 / 2) = 1 / 2"
     apply (rule binary64_at[where m = "4503599627370496" and k = "- 52" and n = "4503599627370496"];
      simp add: roundTiesToEven_def power_int_minus)
    apply (rule binary64_at[where m = "- 4503599627370496" and k = "- 52" and n = "- 4503599627370496"];
      simp add: roundTiesToEven_def power_int_minus)
   apply (rule binary64_at[where m = "- 4503599627370496" and k = "- 51" and n = "- 4503599627370496"];
      simp add: roundTiesToEven_def power_int_minus)
  apply (rule binary64_at[where m = "4503599627370496" and k = "- 53" and n = "4503599627370496"];
      simp add: roundTiesToEven_def power_int_minus)
  done

text \<open>In binary64 the diagonals of the unit square intersect, two opposite sides do
  not.\<close>

theorem lineSegmentIntersect_diagonals_witness:
  "boundedCoordinates (Vec2 0 0) \<and> boundedCoordinates (Vec2 1 1) \<and>
   boundedCoordinates (Vec2 0 1) \<and> boundedCoordinates (Vec2 1 0) \<and>
   lineSegmentIntersect binary64 (Vec2 0 0) (Vec2 1 1) (Vec2 0 1) (Vec2 1 0) \<and>
   \<not> lineSegmentIntersect binary64 (Vec2 0 0) (Vec2 1 0) (Vec2 0 1) (Vec2 1 1)"
proof -
  have b: "boundedCoordinates (Vec2 0 0)" "boundedCoordinates (Vec2 1 1)"
    "boundedCoordinates (Vec2 0 1)" "boundedCoordinates (Vec2 1 0)"
    by (simp_all add: boundedCoordinates_def)
  from lineSegmentIntersect_computed_parameters[OF b(1) b(2) b(3) b(4), of binary64]
  have 1: "lineSegmentIntersect binary64 (Vec2 0 0) (Vec2 1 1) (Vec2 0 1) (Vec2 1 0)"
    by (simp add: binary64_zero binary64_small)
  from lineSegmentIntersect_computed_parameters[OF b(1) b(4) b(3) b(2), of binary64]
  have 2: "\<not> lineSegmentIntersect binary64 (Vec2 0 0) (Vec2 1 0) (Vec2 0 1) (Vec2 1 1)"
    by (simp add: binary64_zero binary64_small)
  from b 1 2 show ?thesis by blast
qed


section \<open>Export, import and export again\<close>

lemma fold_vertexIndices_bound:
  assumes "fold (\<lambda>(i, v) m. m(v \<mapsto> i)) (List.enumerate k vs) m0 v = Some i"
  shows "m0 v = Some i \<or> (k \<le> i \<and> i < k + length vs)"
  using assms
proof (induction vs arbitrary: k m0)
  case Nil
  then show ?case by simp
next
  case (Cons a vs)
  from Cons.prems have "fold (\<lambda>(i, v) m. m(v \<mapsto> i)) (List.enumerate (Suc k) vs) (m0(a \<mapsto> k)) v = Some i"
    by (simp only: enumerate_simps fold_simps o_apply prod.case)
  from Cons.IH[OF this] show ?case by (auto split: if_splits)
qed

lemma vertexIndices_bound: "vertexIndices vs v = Some i \<Longrightarrow> i < length vs"
  unfolding vertexIndices_def using fold_vertexIndices_bound[of 0 vs Map.empty v i] by simp

lemma fold_vertexIndices_upt:
  "fold (\<lambda>(i, v) m. m(v \<mapsto> i)) (map (\<lambda>i. (i, i)) [0 ..< n]) Map.empty
     = (\<lambda>v. if v < n then Some v else None)"
  by (induction n) (auto simp: fun_eq_iff)

lemma vertexIndices_upt: "vertexIndices [0 ..< n] v = (if v < n then Some v else None)"
proof -
  have "List.enumerate 0 [0 ..< n] = map (\<lambda>i. (i, i)) [0 ..< n]"
    by (simp add: enumerate_eq_zip zip_same_conv_map)
  then show ?thesis by (simp add: vertexIndices_def fold_vertexIndices_upt)
qed

text \<open>The index pairs that \<^verbatim>\<open>serialize\<close> writes are positions of vertices.\<close>

lemma serialize_edges_valid:
  assumes "(index0, index1) \<in> set (ser_edges (serialize g))"
  shows "0 \<le> index0 \<and> index0 < int (length (vertices g)) \<and>
         0 \<le> index1 \<and> index1 < int (length (vertices g))"
proof -
  from assms obtain e i j where "vertexIndices (vertices g) (vertex0 e) = Some i"
    "vertexIndices (vertices g) (vertex1 e) = Some j" "index0 = int i" "index1 = int j"
    by (auto simp: serialize_def split: option.splits) metis
  then show ?thesis using vertexIndices_bound[of "vertices g"] by auto
qed

lemma serialize_vertices_length [simp]:
  "length (ser_vertices (serialize g)) = length (vertices g)"
  by (simp add: serialize_def)

lemma fromSerialized_vertices: "vertices (fromSerialized rd data) = [0 ..< length (ser_vertices data)]"
  by (simp add: fromSerialized_def loadFromSerialized_vertices Graph_init_def)

lemma fromSerialized_edges:
  "edges (fromSerialized rd data) =
     map (\<lambda>(k, index0, index1). GraphEdge k (nat index0) (nat index1))
       (filter (validEntry (length (ser_vertices data))) (List.enumerate 0 (ser_edges data)))"
proof -
  have "map (entryEdge [0 ..< length (ser_vertices data)])
          (filter (validEntry (length (ser_vertices data))) as)
      = map (\<lambda>(k, index0, index1). GraphEdge k (nat index0) (nat index1))
          (filter (validEntry (length (ser_vertices data))) as)" for as
    by (rule map_cong) (auto simp: entryEdge_def validEntry_def)
  then show ?thesis
    by (simp add: fromSerialized_def loadFromSerialized_edges loadFromSerialized_vertices Graph_init_def)
qed

lemma serialize_fromSerialized_edges:
  "ser_edges (serialize (fromSerialized rd data)) =
     filter (\<lambda>(index0, index1).
         0 \<le> index0 \<and> index0 < int (length (ser_vertices data)) \<and>
         0 \<le> index1 \<and> index1 < int (length (ser_vertices data)))
       (ser_edges data)"
proof -
  have 1: "concat (map (\<lambda>e.
          case vertexIndices [0 ..< n] (vertex0 e) of
            None \<Rightarrow> []
          | Some index0 \<Rightarrow>
             (case vertexIndices [0 ..< n] (vertex1 e) of
                None \<Rightarrow> []
              | Some index1 \<Rightarrow> [(int index0, int index1)]))
        (map (\<lambda>(k, index0, index1). GraphEdge k (nat index0) (nat index1))
          (filter (validEntry n) as)))
      = map snd (filter (validEntry n) as)" for n as
    by (induction as) (auto simp: vertexIndices_upt validEntry_def)
  have 2: "map snd (filter (validEntry n) (List.enumerate k es))
      = filter (\<lambda>(index0, index1). 0 \<le> index0 \<and> index0 < int n \<and> 0 \<le> index1 \<and> index1 < int n) es"
    for n k es
    by (induction es arbitrary: k) (auto simp: validEntry_def)
  show ?thesis
    unfolding serialize_def GraphSerialized.sel fromSerialized_vertices fromSerialized_edges 1 2 ..
qed

lemma serialize_round_trip_edges:
  "ser_edges (serialize (fromSerialized rd (serialize g))) = ser_edges (serialize g)"
  unfolding serialize_fromSerialized_edges
  by (rule filter_True) (use serialize_edges_valid[of _ _ g] in auto)

text \<open>The roundings that occur when the vertex list \<open>(0,0)\<close>, \<open>(3,1)\<close> is normalised in
  binary64 and the result is normalised again.\<close>

lemma nz_1: "binary64 (3) = 3"
  by (rule binary64_at[where m = "6755399441055744" and k = "- 51" and n = "6755399441055744"])
    (simp_all add: roundTiesToEven_def power_int_minus)

lemma nz_2: "binary64 (1) = 1"
  by (rule binary64_at[where m = "4503599627370496" and k = "- 52" and n = "4503599627370496"])
    (simp_all add: roundTiesToEven_def power_int_minus)

lemma nz_3: "binary64 (3 / 2) = 3 / 2"
  by (rule binary64_at[where m = "6755399441055744" and k = "- 52" and n = "6755399441055744"])
    (simp_all add: roundTiesToEven_def power_int_minus)

lemma nz_4: "binary64 (1 / 2) = 1 / 2"
  by (rule binary64_at[where m = "4503599627370496" and k = "- 53" and n = "4503599627370496"])
    (simp_all add: roundTiesToEven_def power_int_minus)

lemma nz_5: "binary64 (1 / 10) = 3602879701896397 / 36028797018963968"
  by (rule binary64_at[where m = "36028797018963968 / 5" and k = "- 56" and n = "7205759403792794"])
    (simp_all add: roundTiesToEven_def power_int_minus)

lemma nz_6: "binary64 (3602879701896397 / 18014398509481984) = 3602879701896397 / 18014398509481984"
  by (rule binary64_at[where m = "7205759403792794" and k = "- 55" and n = "7205759403792794"])
    (simp_all add: roundTiesToEven_def power_int_minus)

lemma nz_7: "binary64 (32425917317067571 / 18014398509481984) = 8106479329266893 / 4503599627370496"
  by (rule binary64_at[where m = "32425917317067571 / 4" and k = "- 52" and n = "8106479329266893"])
    (simp_all add: roundTiesToEven_def power_int_minus)

lemma nz_8: "binary64 (8106479329266893 / 13510798882111488) = 5404319552844595 / 9007199254740992"
  by (rule binary64_at[where m = "16212958658533786 / 3" and k = "- 53" and n = "5404319552844595"])
    (simp_all add: roundTiesToEven_def power_int_minus)

lemma nz_9: "binary64 (8106479329266893 / 4503599627370496) = 8106479329266893 / 4503599627370496"
  by (rule binary64_at[where m = "8106479329266893" and k = "- 52" and n = "8106479329266893"])
    (simp_all add: roundTiesToEven_def power_int_minus)

lemma nz_10: "binary64 (- (3 / 2)) = - (3 / 2)"
  by (rule binary64_at[where m = "- 6755399441055744" and k = "- 52" and n = "- 6755399441055744"])
    (simp_all add: roundTiesToEven_def power_int_minus)

lemma nz_11: "binary64 (- (1 / 2)) = - (1 / 2)"
  by (rule binary64_at[where m = "- 4503599627370496" and k = "- 53" and n = "- 4503599627370496"])
    (simp_all add: roundTiesToEven_def power_int_minus)

lemma nz_12: "binary64 (- (16212958658533785 / 18014398509481984)) = - (2026619832316723 / 2251799813685248)"
  by (rule binary64_at[where m = "- 16212958658533785 / 2" and k = "- 53" and n = "- 8106479329266892"])
    (simp_all add: roundTiesToEven_def power_int_minus)

lemma nz_13: "binary64 (- (5404319552844595 / 18014398509481984)) = - (5404319552844595 / 18014398509481984)"
  by (rule binary64_at[where m = "- 5404319552844595" and k = "- 54" and n = "- 5404319552844595"])
    (simp_all add: roundTiesToEven_def power_int_minus)

lemma nz_14: "binary64 (16212958658533785 / 18014398509481984) = 2026619832316723 / 2251799813685248"
  by (rule binary64_at[where m = "16212958658533785 / 2" and k = "- 53" and n = "8106479329266892"])
    (simp_all add: roundTiesToEven_def power_int_minus)

lemma nz_15: "binary64 (5404319552844595 / 18014398509481984) = 5404319552844595 / 18014398509481984"
  by (rule binary64_at[where m = "5404319552844595" and k = "- 54" and n = "5404319552844595"])
    (simp_all add: roundTiesToEven_def power_int_minus)

lemma nz_16: "binary64 (2026619832316723 / 1125899906842624) = 2026619832316723 / 1125899906842624"
  by (rule binary64_at[where m = "8106479329266892" and k = "- 52" and n = "8106479329266892"])
    (simp_all add: roundTiesToEven_def power_int_minus)

lemma nz_17: "binary64 (5404319552844595 / 9007199254740992) = 5404319552844595 / 9007199254740992"
  by (rule binary64_at[where m = "5404319552844595" and k = "- 53" and n = "5404319552844595"])
    (simp_all add: roundTiesToEven_def power_int_minus)

lemma nz_18: "binary64 (8106479329266893 / 8106479329266892) = 4503599627370497 / 4503599627370496"
  by (rule binary64_at[where m = "9127084321643251915956244447232 / 2026619832316723" and k = "- 52" and n = "4503599627370497"])
    (simp_all add: roundTiesToEven_def power_int_minus)

lemma nz_19: "binary64 (16212958658533786 / 5404319552844595) = 3"
  by (rule binary64_at[where m = "36508337286573007663824977788928 / 5404319552844595" and k = "- 51" and n = "6755399441055744"])
    (simp_all add: roundTiesToEven_def power_int_minus)

lemma nz_20: "binary64 (- (2026619832316723 / 2251799813685248)) = - (2026619832316723 / 2251799813685248)"
  by (rule binary64_at[where m = "- 8106479329266892" and k = "- 53" and n = "- 8106479329266892"])
    (simp_all add: roundTiesToEven_def power_int_minus)

lemma nz_21: "binary64 (- (9127084321643252816676169921331 / 10141204801825835211973625643008)) = - (4053239664633447 / 4503599627370496)"
  by (rule binary64_at[where m = "- 9127084321643252816676169921331 / 1125899906842624" and k = "- 53" and n = "- 8106479329266894"])
    (simp_all add: roundTiesToEven_def power_int_minus)

lemma nz_22: "binary64 (- (24338891524382009012336328913715 / 81129638414606681695789005144064)) = - (1351079888211149 / 4503599627370496)"
  by (rule binary64_at[where m = "- 24338891524382009012336328913715 / 4503599627370496" and k = "- 54" and n = "- 5404319552844596"])
    (simp_all add: roundTiesToEven_def power_int_minus)

lemma nz_23: "binary64 (2026619832316723 / 2251799813685248) = 2026619832316723 / 2251799813685248"
  by (rule binary64_at[where m = "8106479329266892" and k = "- 53" and n = "8106479329266892"])
    (simp_all add: roundTiesToEven_def power_int_minus)

lemma nz_24: "binary64 (9127084321643252816676169921331 / 10141204801825835211973625643008) = 4053239664633447 / 4503599627370496"
  by (rule binary64_at[where m = "9127084321643252816676169921331 / 1125899906842624" and k = "- 53" and n = "8106479329266894"])
    (simp_all add: roundTiesToEven_def power_int_minus)

lemma nz_25: "binary64 (24338891524382009012336328913715 / 81129638414606681695789005144064) = 1351079888211149 / 4503599627370496"
  by (rule binary64_at[where m = "24338891524382009012336328913715 / 4503599627370496" and k = "- 54" and n = "5404319552844596"])
    (simp_all add: roundTiesToEven_def power_int_minus)

lemmas nz = nz_1 nz_2 nz_3 nz_4 nz_5 nz_6 nz_7 nz_8 nz_9 nz_10 nz_11 nz_12 nz_13 nz_14 nz_15 nz_16 nz_17 nz_18 nz_19 nz_20 nz_21 nz_22 nz_23 nz_24 nz_25

lemma vertices_Graph_init: "vertices Graph_init = []"
  by (simp add: Graph_init_def)

lemma pos_fromSerialized:
  "pos (fromSerialized rd data) =
     pos (normalizeVerticesToGraphSpace rd
       (Graph_init\<lparr>vertices := [0 ..< length (ser_vertices data)],
           pos := (\<lambda>v. if v < length (ser_vertices data)
                         then (case ser_vertices data ! v of (a, b) \<Rightarrow> Vec2 a b)
                         else pos Graph_init v),
           vedges := (\<lambda>v. if v < length (ser_vertices data) then [] else vedges Graph_init v)\<rparr>))"
  by (simp add: fromSerialized_def loadFromSerialized_def Let_def vertices_Graph_init cong: if_cong)

lemma first_pass:
  "ser_vertices (serialize (fromSerialized binary64 (GraphSerialized [(0, 0), (3, 1)] []))) =
     [(- (2026619832316723 / 2251799813685248), - (5404319552844595 / 18014398509481984)),
      (2026619832316723 / 2251799813685248, 5404319552844595 / 18014398509481984)]"
  unfolding serialize_def GraphSerialized.sel fromSerialized_vertices pos_fromSerialized
  by (simp add: upt_rec normalizeVerticesToGraphSpace_def Graph_init_def Let_def round_vec2_def
      vec2_add_def vec2_sub_def vec2_scale_def js_quotient_def Graph_width_def Graph_height_def
      Graph_padding_def binary64_zero nz)


lemma first_pass_serialized:
  "serialize (fromSerialized binary64 (GraphSerialized [(0, 0), (3, 1)] [])) =
     GraphSerialized
       [(- (2026619832316723 / 2251799813685248), - (5404319552844595 / 18014398509481984)),
        (2026619832316723 / 2251799813685248, 5404319552844595 / 18014398509481984)] []"
  by (rule GraphSerialized.expand) (simp add: first_pass serialize_fromSerialized_edges)

lemma second_pass:
  "ser_vertices (serialize (fromSerialized binary64 (GraphSerialized
       [(- (2026619832316723 / 2251799813685248), - (5404319552844595 / 18014398509481984)),
        (2026619832316723 / 2251799813685248, 5404319552844595 / 18014398509481984)] []))) =
     [(- (4053239664633447 / 4503599627370496), - (1351079888211149 / 4503599627370496)),
      (4053239664633447 / 4503599627370496, 1351079888211149 / 4503599627370496)]"
  unfolding serialize_def GraphSerialized.sel fromSerialized_vertices pos_fromSerialized
  by (simp add: upt_rec normalizeVerticesToGraphSpace_def Graph_init_def Let_def round_vec2_def
      vec2_add_def vec2_sub_def vec2_scale_def js_quotient_def Graph_width_def Graph_height_def
      Graph_padding_def binary64_zero nz)



text \<open>
  Claim C1, as the code has it. For every graph, \<^verbatim>\<open>serialize\<close> writes the position of
  every vertex and only index pairs that are positions of vertices; deserializing
  the result and serializing again reproduces the list of index pairs and the
  number of vertices, for every rounding. The coordinates are normalised again by
  the import and are not reproduced in general.
\<close>

theorem serialize_round_trip_edges_vertices:
  "ser_vertices (serialize g) = map (\<lambda>v. (x_of (pos g v), y_of (pos g v))) (vertices g) \<and>
   (\<forall>index0 index1. (index0, index1) \<in> set (ser_edges (serialize g)) \<longrightarrow>
       0 \<le> index0 \<and> index0 < int (length (vertices g)) \<and>
       0 \<le> index1 \<and> index1 < int (length (vertices g))) \<and>
   ser_edges (serialize (fromSerialized rd (serialize g))) = ser_edges (serialize g) \<and>
   length (ser_vertices (serialize (fromSerialized rd (serialize g)))) =
     length (ser_vertices (serialize g))"
proof -
  have "ser_vertices (serialize g) = map (\<lambda>v. (x_of (pos g v), y_of (pos g v))) (vertices g)"
    by (simp add: serialize_def)
  moreover have "\<forall>index0 index1. (index0, index1) \<in> set (ser_edges (serialize g)) \<longrightarrow>
       0 \<le> index0 \<and> index0 < int (length (vertices g)) \<and>
       0 \<le> index1 \<and> index1 < int (length (vertices g))"
    using serialize_edges_valid[of _ _ g] by blast
  moreover have "length (ser_vertices (serialize (fromSerialized rd (serialize g)))) =
     length (ser_vertices (serialize g))"
    by (simp add: fromSerialized_vertices)
  ultimately show ?thesis using serialize_round_trip_edges[of rd g] by blast
qed

text \<open>The graph deserialized in binary64 from the vertices \<open>(0,0)\<close>, \<open>(3,1)\<close>: its export
  and the export of its re-import differ in every coordinate.\<close>

theorem serialize_round_trip_binary64_example:
  "ser_vertices (serialize (fromSerialized binary64 (GraphSerialized [(0, 0), (3, 1)] []))) =
     [(- (2026619832316723 / 2251799813685248), - (5404319552844595 / 18014398509481984)),
      (2026619832316723 / 2251799813685248, 5404319552844595 / 18014398509481984)] \<and>
   ser_vertices (serialize (fromSerialized binary64
      (serialize (fromSerialized binary64 (GraphSerialized [(0, 0), (3, 1)] []))))) =
     [(- (4053239664633447 / 4503599627370496), - (1351079888211149 / 4503599627370496)),
      (4053239664633447 / 4503599627370496, 1351079888211149 / 4503599627370496)] \<and>
   ser_vertices (serialize (fromSerialized binary64
      (serialize (fromSerialized binary64 (GraphSerialized [(0, 0), (3, 1)] []))))) \<noteq>
   ser_vertices (serialize (fromSerialized binary64 (GraphSerialized [(0, 0), (3, 1)] [])))"
proof -
  have 2: "ser_vertices (serialize (fromSerialized binary64
      (serialize (fromSerialized binary64 (GraphSerialized [(0, 0), (3, 1)] []))))) =
     [(- (4053239664633447 / 4503599627370496), - (1351079888211149 / 4503599627370496)),
      (4053239664633447 / 4503599627370496, 1351079888211149 / 4503599627370496)]"
    unfolding first_pass_serialized by (rule second_pass)
  show ?thesis unfolding 2 first_pass by simp
qed

text \<open>The triangle: three index pairs, reproduced by the round trip.\<close>

theorem serialize_round_trip_triangle:
  "ser_edges (serialize triangleGraph) = [(0, 1), (1, 2), (2, 0)] \<and>
   ser_edges (serialize (fromSerialized id (serialize triangleGraph))) = [(0, 1), (1, 2), (2, 0)] \<and>
   length (ser_vertices (serialize (fromSerialized id (serialize triangleGraph)))) = 3"
proof -
  have v: "vertices triangleGraph = [0 ..< 3]" by (simp add: triangleGraph_def upt_rec)
  have e: "ser_edges (serialize triangleGraph) = [(0, 1), (1, 2), (2, 0)]"
    unfolding serialize_def GraphSerialized.sel v vertexIndices_upt
    by (simp add: triangleGraph_def)
  from serialize_round_trip_edges_vertices[of triangleGraph id] e v show ?thesis by simp
qed


section \<open>Pruning and edges in the same direction\<close>

text \<open>
  Claim C3, where the code departs from it. One step of the inner loop of
  \<^verbatim>\<open>removeSmallAngles\<close> with the threshold \<^verbatim>\<open>Math.PI / 6\<close>, for two different edges
  that are both still listed at the vertex: when the gap between the two direction
  angles is positive and below the threshold, the longer edge is removed; but
  when the two direction angles are equal, the gap \<open>0\<close> is replaced by a full turn
  (\<^verbatim>\<open>angleDelta <= 0\<close>) and nothing is removed. Two different edges that leave a
  vertex in the same direction therefore survive the pruning although they
  subtend an angle of \<open>0\<close>. This holds for every rounding that is monotone,
  idempotent and maps \<open>0\<close> to \<open>0\<close>.
\<close>

theorem anglePairStep_zero_gap_kept:
  assumes "rd 0 = 0" and "mono rd" and "\<And>a. rd (rd a) = rd a"
    and "es ! i \<in> set (vedges g v)" and "es ! ((i + 1) mod length es) \<in> set (vedges g v)"
    and "es ! i \<noteq> es ! ((i + 1) mod length es)"
  shows "(edgeAngle rd g v (es ! ((i + 1) mod length es)) = edgeAngle rd g v (es ! i) \<longrightarrow>
            anglePairStep rd (rd (rd pi / 6)) v es i (g, removedEdge) = (g, removedEdge)) \<and>
         (0 < rd (edgeAngle rd g v (es ! ((i + 1) mod length es)) - edgeAngle rd g v (es ! i)) \<and>
          rd (edgeAngle rd g v (es ! ((i + 1) mod length es)) - edgeAngle rd g v (es ! i))
            < rd (rd pi / 6) \<longrightarrow>
            anglePairStep rd (rd (rd pi / 6)) v es i (g, removedEdge) =
              (removeEdge (if edge_length rd g (es ! ((i + 1) mod length es)) \<le> edge_length rd g (es ! i)
                           then es ! i else es ! ((i + 1) mod length es)) g, True))"
proof -
  have p: "0 \<le> rd pi" using monoD[OF assms(2), of 0 pi] assms(1) by simp
  then have "rd pi / 6 \<le> 2 * rd pi" by simp
  then have "rd (rd pi / 6) \<le> rd (2 * rd pi)" using assms(2) by (rule monoD[rotated])
  then have "rd (rd (rd pi / 6)) \<le> rd (rd (2 * rd pi))" using assms(2) by (rule monoD[rotated])
  then have t: "rd (rd pi / 6) \<le> rd (0 + rd (2 * rd pi))" by (simp add: assms(3))
  have 1: "anglePairStep rd (rd (rd pi / 6)) v es i (g, removedEdge) = (g, removedEdge)"
    if "edgeAngle rd g v (es ! ((i + 1) mod length es)) = edgeAngle rd g v (es ! i)"
    unfolding anglePairStep_def Let_def using assms(1) that t by simp
  have 2: "anglePairStep rd (rd (rd pi / 6)) v es i (g, removedEdge) =
              (removeEdge (if edge_length rd g (es ! ((i + 1) mod length es)) \<le> edge_length rd g (es ! i)
                           then es ! i else es ! ((i + 1) mod length es)) g, True)"
    if "0 < rd (edgeAngle rd g v (es ! ((i + 1) mod length es)) - edgeAngle rd g v (es ! i))"
      "rd (edgeAngle rd g v (es ! ((i + 1) mod length es)) - edgeAngle rd g v (es ! i))
            < rd (rd pi / 6)"
    unfolding anglePairStep_def Let_def using assms(4,5,6) that by simp
  from 1 2 show ?thesis by blast
qed

lemma edgeAngle_collinearGraph:
  "edgeAngle id collinearGraph 0 (GraphEdge 0 0 1) = 0"
  "edgeAngle id collinearGraph 0 (GraphEdge 1 0 2) = 0"
  "edgeAngle id collinearGraph 1 (GraphEdge 2 1 2) = 0"
  "edgeAngle id collinearGraph 1 (GraphEdge 0 0 1) = pi"
  "edgeAngle id collinearGraph 2 (GraphEdge 1 0 2) = pi"
  "edgeAngle id collinearGraph 2 (GraphEdge 2 1 2) = pi"
  by (simp_all add: edgeAngle_def collinearGraph_def Graph_init_def round_vec2_def vec2_sub_def
      Math_atan2_def)

lemmas edgeAngle_collinearGraph_Suc = edgeAngle_collinearGraph [unfolded One_nat_def]

lemma vedges_collinearGraph:
  "vedges collinearGraph 0 = [GraphEdge 0 0 1, GraphEdge 1 0 2]"
  "vedges collinearGraph 1 = [GraphEdge 2 1 2, GraphEdge 0 0 1]"
  "vedges collinearGraph 2 = [GraphEdge 1 0 2, GraphEdge 2 1 2]"
  "vertices collinearGraph = [0, 1, 2]"
  by (simp_all add: collinearGraph_def Graph_init_def)

lemma pi_facts: "pi / 6 \<le> 2 * pi" "pi / 6 \<le> pi" "\<not> pi \<le> 0" "- pi \<le> 0"
  using pi_gt_zero by (simp_all add: not_le)

lemma anglePairStep_collinearGraph:
  "anglePairStep id (pi / 6) 0 [GraphEdge 0 0 1, GraphEdge 1 0 2] 0 (collinearGraph, False)
     = (collinearGraph, False)"
  "anglePairStep id (pi / 6) 0 [GraphEdge 0 0 1, GraphEdge 1 0 2] 1 (collinearGraph, False)
     = (collinearGraph, False)"
  "anglePairStep id (pi / 6) 1 [GraphEdge 2 1 2, GraphEdge 0 0 1] 0 (collinearGraph, False)
     = (collinearGraph, False)"
  "anglePairStep id (pi / 6) 1 [GraphEdge 2 1 2, GraphEdge 0 0 1] 1 (collinearGraph, False)
     = (collinearGraph, False)"
  "anglePairStep id (pi / 6) 2 [GraphEdge 1 0 2, GraphEdge 2 1 2] 0 (collinearGraph, False)
     = (collinearGraph, False)"
  "anglePairStep id (pi / 6) 2 [GraphEdge 1 0 2, GraphEdge 2 1 2] 1 (collinearGraph, False)
     = (collinearGraph, False)"
  unfolding anglePairStep_def Let_def prod.case vedges_collinearGraph
  by (simp_all add: edgeAngle_collinearGraph_Suc pi_facts)

lemma angleVertexStep_collinearGraph:
  "angleVertexStep id (pi / 6) 0 (collinearGraph, False) = (collinearGraph, False)"
  "angleVertexStep id (pi / 6) 1 (collinearGraph, False) = (collinearGraph, False)"
  "angleVertexStep id (pi / 6) 2 (collinearGraph, False) = (collinearGraph, False)"
proof -
  have u: "[0 ..< length [a, b]] = [0, 1]" for a b :: GraphEdge by (simp add: upt_rec)
  show "angleVertexStep id (pi / 6) 0 (collinearGraph, False) = (collinearGraph, False)"
    "angleVertexStep id (pi / 6) 1 (collinearGraph, False) = (collinearGraph, False)"
    "angleVertexStep id (pi / 6) 2 (collinearGraph, False) = (collinearGraph, False)"
    unfolding angleVertexStep_def Let_def prod.case vedges_collinearGraph u
    by (simp_all add: anglePairStep_collinearGraph [unfolded One_nat_def])
qed

lemma removeSmallAngles_collinearGraph:
  "removeSmallAngles id (pi / 6) collinearGraph = (collinearGraph, False)"
  unfolding removeSmallAngles_def vedges_collinearGraph
  by (simp add: angleVertexStep_collinearGraph [unfolded One_nat_def])

lemma removeSparseVertices_collinearGraph:
  "removeSparseVertices collinearGraph = (collinearGraph, False)"
proof -
  have c: "sparseCollect 0 (collinearGraph, []) = (collinearGraph, [])"
    "sparseCollect 1 (collinearGraph, []) = (collinearGraph, [])"
    "sparseCollect 2 (collinearGraph, []) = (collinearGraph, [])"
    unfolding sparseCollect_def prod.case Let_def vedges_collinearGraph by simp_all
  show ?thesis
    unfolding removeSparseVertices_def vedges_collinearGraph
    by (simp add: c [unfolded One_nat_def])
qed

text \<open>For the three collinear vertices: the two edges at vertex 0 have the direction
  angle \<open>0\<close>, and a pass of \<^verbatim>\<open>removeSmallAngles\<close> and a pass of
  \<^verbatim>\<open>removeSparseVertices\<close> both return \<^verbatim>\<open>false\<close> and leave the graph as it is.\<close>

theorem collinearGraph_not_pruned:
  "edgeAngle id collinearGraph 0 (GraphEdge 0 0 1) = 0 \<and>
   edgeAngle id collinearGraph 0 (GraphEdge 1 0 2) = 0 \<and>
   anglePairStep id (pi / 6) 0 (vedges collinearGraph 0) 0 (collinearGraph, False)
     = (collinearGraph, False) \<and>
   removeSmallAngles id (pi / 6) collinearGraph = (collinearGraph, False) \<and>
   removeSparseVertices collinearGraph = (collinearGraph, False)"
proof -
  have "anglePairStep id (id (id pi / 6)) 0 (vedges collinearGraph 0) 0 (collinearGraph, False)
     = (collinearGraph, False)"
    using anglePairStep_zero_gap_kept[of id "vedges collinearGraph 0" 0 collinearGraph 0 False]
    by (simp add: vedges_collinearGraph edgeAngle_collinearGraph_Suc mono_def)
  then show ?thesis
    by (simp add: edgeAngle_collinearGraph_Suc removeSmallAngles_collinearGraph
        removeSparseVertices_collinearGraph)
qed


end
